theory Spec2Isabelle
  imports Complex_Main "HOL-Library.Log_Nat" "HOL-Library.Monad_Syntax"
begin

section \<open>Floating-point values\<close>

text \<open>
  The program computes its difficulty curve and its rewards in \<^verbatim>\<open>float64\<close>. A value is
  a finite number, one of the two infinities, or NaN. The two zeros are not told apart:
  the program only compares floats and converts them to \<^verbatim>\<open>int\<close>, and both treat
  \<open>-0\<close> as \<open>0\<close>.

  Two instances of the type are used.
  \<^item> \<open>float64\<close>, over the rationals, is bit-exact IEEE 754 binary64: conversion from
    \<^verbatim>\<open>int\<close>, multiplication, division and \<^verbatim>\<open>math.Sqrt\<close> are correctly rounded
    (round to nearest, ties to even), as IEEE 754 and the Go specification fix them.
  \<^item> \<open>xfloat\<close>, over the reals, carries the logarithmic curve in exact arithmetic:
    \<^verbatim>\<open>math.Log\<close> is a library routine that only approximates the natural logarithm
    and has no bit-level specification, so the expressions built on it are modelled
    without rounding, infinities and NaN kept.
\<close>

datatype 'a fl = Fin 'a | PInf | NInf | NaN

type_synonym float64 = "rat fl"
type_synonym xfloat = "real fl"

text \<open>Go's \<^verbatim>\<open>x < y\<close> on floats: false as soon as one side is NaN.\<close>

fun fl_less :: "'a::linorder fl \<Rightarrow> 'a fl \<Rightarrow> bool" where
  "fl_less (Fin a) (Fin b) = (a < b)"
| "fl_less (Fin a) PInf = True"
| "fl_less NInf (Fin b) = True"
| "fl_less NInf PInf = True"
| "fl_less _ _ = False"

text \<open>
  The program's own helpers (they shadow nothing in Go 1.20):
  \<^verbatim>\<open>func max(x, y float64) float64 { if x > y { return x }; return y }\<close>
  \<^verbatim>\<open>func min(x, y float64) float64 { if x < y { return x }; return y }\<close>
\<close>

definition max_fl :: "'a::linorder fl \<Rightarrow> 'a fl \<Rightarrow> 'a fl" where
  "max_fl x y = (if fl_less y x then x else y)"

definition min_fl :: "'a::linorder fl \<Rightarrow> 'a fl \<Rightarrow> 'a fl" where
  "min_fl x y = (if fl_less x y then x else y)"

text \<open>
  The conversion \<^verbatim>\<open>int(x)\<close> truncates toward zero. For NaN, an infinity or a value
  outside the 64-bit range Go leaves the result to the implementation; the value of
  amd64 (the smallest \<^verbatim>\<open>int64\<close>) is taken here.
\<close>

definition trunc_int :: "'a::floor_ceiling \<Rightarrow> int" where
  "trunc_int x = (if 0 \<le> x then \<lfloor>x\<rfloor> else \<lceil>x\<rceil>)"

definition minInt64 :: int where
  "minInt64 = - (2 ^ 63)"

fun int_of_fl :: "'a::floor_ceiling fl \<Rightarrow> int" where
  "int_of_fl (Fin a) =
     (if minInt64 \<le> trunc_int a \<and> trunc_int a < 2 ^ 63 then trunc_int a else minInt64)"
| "int_of_fl _ = minInt64"

subsection \<open>Exact arithmetic with infinities and NaN\<close>

fun fl_sub :: "'a::linordered_field fl \<Rightarrow> 'a fl \<Rightarrow> 'a fl" where
  "fl_sub (Fin a) (Fin b) = Fin (a - b)"
| "fl_sub NaN _ = NaN"
| "fl_sub _ NaN = NaN"
| "fl_sub PInf PInf = NaN"
| "fl_sub NInf NInf = NaN"
| "fl_sub PInf _ = PInf"
| "fl_sub NInf _ = NInf"
| "fl_sub (Fin a) PInf = NInf"
| "fl_sub (Fin a) NInf = PInf"

fun fl_mul :: "'a::linordered_field fl \<Rightarrow> 'a fl \<Rightarrow> 'a fl" where
  "fl_mul (Fin a) (Fin b) = Fin (a * b)"
| "fl_mul NaN _ = NaN"
| "fl_mul _ NaN = NaN"
| "fl_mul (Fin a) PInf = (if a = 0 then NaN else if 0 < a then PInf else NInf)"
| "fl_mul (Fin a) NInf = (if a = 0 then NaN else if 0 < a then NInf else PInf)"
| "fl_mul PInf (Fin b) = (if b = 0 then NaN else if 0 < b then PInf else NInf)"
| "fl_mul NInf (Fin b) = (if b = 0 then NaN else if 0 < b then NInf else PInf)"
| "fl_mul PInf PInf = PInf"
| "fl_mul NInf NInf = PInf"
| "fl_mul PInf NInf = NInf"
| "fl_mul NInf PInf = NInf"

fun fl_div :: "'a::linordered_field fl \<Rightarrow> 'a fl \<Rightarrow> 'a fl" where
  "fl_div (Fin a) (Fin b) =
     (if b = 0 then (if a = 0 then NaN else if 0 < a then PInf else NInf) else Fin (a / b))"
| "fl_div NaN _ = NaN"
| "fl_div _ NaN = NaN"
| "fl_div (Fin a) _ = Fin 0"
| "fl_div PInf (Fin b) = (if 0 \<le> b then PInf else NInf)"
| "fl_div NInf (Fin b) = (if 0 \<le> b then NInf else PInf)"
| "fl_div PInf PInf = NaN"
| "fl_div PInf NInf = NaN"
| "fl_div NInf PInf = NaN"
| "fl_div NInf NInf = NaN"

subsection \<open>IEEE 754 binary64: rounding to nearest, ties to even\<close>

text \<open>\<open>flog2 x\<close> is \<open>\<lfloor>log\<^sub>2 x\<rfloor>\<close> for a positive rational, computed from bit lengths.\<close>

definition flog2 :: "rat \<Rightarrow> int" where
  "flog2 x = (let (p, q) = quotient_of x; k = bitlen p - bitlen q
              in if 2 powi k \<le> x then k else k - 1)"

definition round_even :: "rat \<Rightarrow> int" where
  "round_even q = (let f = \<lfloor>q\<rfloor>; d = q - of_int f
                   in if d < 1 / 2 then f else if 1 / 2 < d then f + 1
                      else if even f then f else f + 1)"

text \<open>
  A binary64 number has 53 significant bits; its exponent is at least \<open>-1022\<close>
  (below, the spacing stays \<open>2\<^sup>-\<^sup>1\<^sup>0\<^sup>7\<^sup>4\<close>: subnormal numbers) and a rounded
  magnitude of \<open>2\<^sup>1\<^sup>0\<^sup>2\<^sup>4\<close> or more, that is one whose \<open>flog2\<close> reaches 1024,
  overflows to an infinity.
\<close>

definition round64 :: "rat \<Rightarrow> float64" where
  "round64 x =
     (if x = 0 then Fin 0
      else let e = max (flog2 \<bar>x\<bar>) (- 1022);
               u = 2 powi (e - 52);
               r = of_int (round_even (x / u)) * u
           in if 1024 \<le> flog2 \<bar>r\<bar> then (if 0 < x then PInf else NInf) else Fin r)"

fun round_fl :: "rat fl \<Rightarrow> float64" where
  "round_fl (Fin a) = round64 a"
| "round_fl v = v"

text \<open>\<^verbatim>\<open>float64(i)\<close>, \<^verbatim>\<open>x * y\<close> and \<^verbatim>\<open>x / y\<close> on \<^verbatim>\<open>float64\<close>.\<close>

definition float64_of_int :: "int \<Rightarrow> float64" where
  "float64_of_int i = round64 (of_int i)"

definition mul64 :: "float64 \<Rightarrow> float64 \<Rightarrow> float64" where
  "mul64 x y = round_fl (fl_mul x y)"

definition div64 :: "float64 \<Rightarrow> float64 \<Rightarrow> float64" where
  "div64 x y = round_fl (fl_div x y)"

text \<open>The integer square root, two bits at a time.\<close>

function isqrt :: "int \<Rightarrow> int" where
  "isqrt n = (if n < 1 then 0
              else let r = 2 * isqrt (n div 4)
                   in if (r + 1) * (r + 1) \<le> n then r + 1 else r)"
  by pat_completeness auto
termination
  by (relation "measure nat") auto

declare isqrt.simps [simp del]

text \<open>
  \<^verbatim>\<open>math.Sqrt\<close> is correctly rounded. For \<open>x > 0\<close> the root lies in
  \<open>[2\<^sup>e, 2\<^sup>e\<^sup>+\<^sup>1)\<close> with \<open>e = \<lfloor>flog2 x / 2\<rfloor>\<close>, so it is rounded to a multiple of
  \<open>u = 2\<^sup>e\<^sup>-\<^sup>5\<^sup>2\<close>: with \<open>X = x / u\<^sup>2\<close> and \<open>n = \<lfloor>\<surd>X\<rfloor>\<close> the result is \<open>n * u\<close> or
  \<open>(n + 1) * u\<close>, whichever is nearer, decided by comparing \<open>X\<close> with \<open>(n + 1/2)\<^sup>2\<close>.
  The root of a binary64 number neither overflows nor is subnormal.
\<close>

definition sqrt_round :: "rat \<Rightarrow> rat" where
  "sqrt_round x =
     (let e = flog2 x div 2;
          u = 2 powi (e - 52);
          X = x / (u * u);
          n = isqrt \<lfloor>X\<rfloor>;
          h = (of_int n + 1 / 2) * (of_int n + 1 / 2);
          m = (if X < h then n else if h < X then n + 1 else if even n then n else n + 1)
      in of_int m * u)"

fun Sqrt :: "float64 \<Rightarrow> float64" where
  "Sqrt (Fin a) = (if a < 0 then NaN else if a = 0 then Fin 0 else Fin (sqrt_round a))"
| "Sqrt PInf = PInf"
| "Sqrt NInf = NaN"
| "Sqrt NaN = NaN"

subsection \<open>The logarithm, in exact arithmetic\<close>

text \<open>
  \<^verbatim>\<open>math.Log\<close> with its documented special cases: \<open>Log(+Inf) = +Inf\<close>,
  \<open>Log(0) = -Inf\<close>, \<open>Log(x < 0) = NaN\<close>, \<open>Log(NaN) = NaN\<close>.
\<close>

fun Log :: "xfloat \<Rightarrow> xfloat" where
  "Log (Fin a) = (if a < 0 then NaN else if a = 0 then NInf else Fin (ln a))"
| "Log PInf = PInf"
| "Log NInf = NaN"
| "Log NaN = NaN"

text \<open>\<^verbatim>\<open>float64(i)\<close> where the logarithm is taken of it.\<close>

definition xfloat_of_int :: "int \<Rightarrow> xfloat" where
  "xfloat_of_int i = Fin (of_int i)"


section \<open>Items\<close>

text \<open>
  \<^verbatim>\<open>type Item struct { label string; centerX, centerY int; recovery bool;
     hovered, resolved bool; initLifetime, lifetime, baseScore int }\<close>
  Go's \<^verbatim>\<open>int\<close> is modelled by \<open>int\<close>: the counters of this program stay far from
  the 64-bit bounds.
\<close>

record Item =
  label :: string
  centerX :: int
  centerY :: int
  recovery :: bool
  hovered :: bool
  resolved :: bool
  initLifetime :: int
  lifetime :: int
  baseScore :: int

definition NewItem :: "string \<Rightarrow> int \<Rightarrow> int \<Rightarrow> bool \<Rightarrow> int \<Rightarrow> int \<Rightarrow> Item" where
  "NewItem lbl cx cy rec lt bs =
     \<lparr>label = lbl, centerX = cx, centerY = cy, recovery = rec,
      hovered = False, resolved = False,
      initLifetime = lt, lifetime = lt, baseScore = bs\<rparr>"

text \<open>
  What one tick reads from outside the program: the input devices and the random
  number generator.
  \<^item> \<open>pressed\<close> is the result of \<^verbatim>\<open>justPressed()\<close> in this tick.
  \<^item> \<open>pointer_over (j, i)\<close> is the hit test of \<^verbatim>\<open>Item.Update\<close> for the item in slot
    \<open>(j, i)\<close>: the last just-pressed touch, or the cursor when there is no such touch,
    lies in the item's \<^verbatim>\<open>Bounds()\<close> (text layout and font metrics are not modelled).
  \<^item> \<open>rand_j\<close>, \<open>rand_i\<close>, \<open>rand_recovery\<close>, \<open>rand_label\<close>, \<open>rand_cool\<close> are the raw
    outputs of the generator for the calls of \<^verbatim>\<open>rand.Intn\<close> a tick can make, in the
    order of the source; \<^verbatim>\<open>rand.Intn(n)\<close> reduces its raw output to \<open>[0, n)\<close>.
\<close>

record Input =
  pressed :: bool
  pointer_over :: "int \<times> int \<Rightarrow> bool"
  rand_j :: nat
  rand_i :: nat
  rand_recovery :: nat
  rand_label :: nat
  rand_cool :: nat

text \<open>\<^verbatim>\<open>rand.Intn(n)\<close> panics when \<open>n \<le> 0\<close>: the panic is the value \<open>None\<close>.\<close>

definition Intn :: "int \<Rightarrow> nat \<Rightarrow> int option" where
  "Intn n raw = (if n \<le> 0 then None else Some (int raw mod n))"

definition Item_Update :: "Input \<Rightarrow> int \<times> int \<Rightarrow> Item \<Rightarrow> Item" where
  "Item_Update inp slot it =
     (let it1 = (if lifetime it > 0 then it\<lparr>lifetime := lifetime it - 1\<rparr> else it);
          it2 = it1\<lparr>hovered := pointer_over inp slot\<rparr>
      in if hovered it2 \<and> pressed inp then it2\<lparr>resolved := True\<rparr> else it2)"

definition Item_Resolved :: "Item \<Rightarrow> bool" where
  "Item_Resolved it = resolved it"

definition Item_Alive :: "Item \<Rightarrow> bool" where
  "Item_Alive it = (lifetime it > 0)"

text \<open>
  \<^verbatim>\<open>int(float64(i.baseScore) * math.Sqrt(float64(i.lifetime)/float64(i.initLifetime)))\<close>
\<close>

definition Item_Score :: "Item \<Rightarrow> int" where
  "Item_Score it =
     int_of_fl (mul64 (float64_of_int (baseScore it))
                      (Sqrt (div64 (float64_of_int (lifetime it))
                                   (float64_of_int (initLifetime it)))))"

section \<open>The game\<close>

datatype Phase = PhaseTitle | PhaseGame | PhaseGameOver

abbreviation (input) maxRecoveryTime :: int where "maxRecoveryTime \<equiv> 30"
abbreviation (input) maxDamageTime :: int where "maxDamageTime \<equiv> 5"
abbreviation (input) initPlayerLife :: int where "initPlayerLife \<equiv> 3"
abbreviation (input) maxPlayerLife :: int where "maxPlayerLife \<equiv> 6"
abbreviation (input) screenWidth :: int where "screenWidth \<equiv> 1920"
abbreviation (input) screenHeight :: int where "screenHeight \<equiv> 1080"

text \<open>
  \<^verbatim>\<open>items [3][4]*Item\<close>: a slot \<open>(j, i)\<close> holds \<open>None\<close> (nil) or its item. Every item is
  referenced from its slot only, so the pointer is modelled by the item itself.
\<close>

record Game =
  phase :: Phase
  score :: int
  items :: "int \<times> int \<Rightarrow> Item option"
  coolTime :: int
  bugID :: int
  playerLife :: int
  recoveryTime :: int
  damageTime :: int

text \<open>The zero value \<^verbatim>\<open>&Game{}\<close> the program starts from.\<close>

definition Game_zero :: Game where
  "Game_zero = \<lparr>phase = PhaseTitle, score = 0, items = (\<lambda>_. None), coolTime = 0,
                 bugID = 0, playerLife = 0, recoveryTime = 0, damageTime = 0\<rparr>"

definition initGame :: "Game \<Rightarrow> Game" where
  "initGame g = g\<lparr>score := 0, items := (\<lambda>_. None), coolTime := 0, bugID := 0,
                   playerLife := initPlayerLife, recoveryTime := 0, damageTime := 0\<rparr>"

definition updateTitle :: "Input \<Rightarrow> Game \<Rightarrow> Game" where
  "updateTitle inp g = (if pressed inp then (initGame g)\<lparr>phase := PhaseGame\<rparr> else g)"

subsection \<open>Spawning\<close>

text \<open>\<^verbatim>\<open>fmt.Sprintf("%d", id)\<close>\<close>

function decimal :: "nat \<Rightarrow> string" where
  "decimal n = (if n < 10 then [char_of (48 + n)]
                else decimal (n div 10) @ [char_of (48 + n mod 10)])"
  by pat_completeness auto
termination
  by (relation "measure id") auto

declare decimal.simps [simp del]

definition fmt_d :: "int \<Rightarrow> string" where
  "fmt_d k = (if k < 0 then CHR ''-'' # decimal (nat (- k)) else decimal (nat k))"

text \<open>\<^verbatim>\<open>log10 := math.Log(10)\<close>\<close>

definition log10 :: xfloat where
  "log10 = Log (Fin 10)"

text \<open>
  \<^verbatim>\<open>lifetime := 100 * (5 - (math.Log(float64(g.score)) / log10))\<close>
  \<^verbatim>\<open>lifetime = min(400, max(100, lifetime))\<close>, used as \<^verbatim>\<open>int(lifetime)\<close>.
\<close>

definition spawn_lifetime :: "int \<Rightarrow> int" where
  "spawn_lifetime sc =
     int_of_fl (min_fl (Fin 400) (max_fl (Fin 100)
       (fl_mul (Fin 100) (fl_sub (Fin 5) (fl_div (Log (xfloat_of_int sc)) log10)))))"

text \<open>
  \<^verbatim>\<open>baseScore := math.Sqrt(float64(g.score))\<close>
  \<^verbatim>\<open>baseScore = max(10, baseScore)\<close>, used as \<^verbatim>\<open>int(baseScore)\<close>.
\<close>

definition spawn_baseScore :: "int \<Rightarrow> int" where
  "spawn_baseScore sc = int_of_fl (max_fl (Fin 10) (Sqrt (float64_of_int sc)))"

text \<open>
  \<^verbatim>\<open>coolTime := 15 * (5 - (math.Log(float64(g.score)) / log10))\<close>
  \<^verbatim>\<open>coolTime = min(60, max(5, coolTime))\<close>, used as \<^verbatim>\<open>int(coolTime)\<close>.
\<close>

definition spawn_coolTime :: "int \<Rightarrow> int" where
  "spawn_coolTime sc =
     int_of_fl (min_fl (Fin 60) (max_fl (Fin 5)
       (fl_mul (Fin 15) (fl_sub (Fin 5) (fl_div (Log (xfloat_of_int sc)) log10)))))"

text \<open>
  The decision between a recovery item and a normal one:
  \<^verbatim>\<open>var recovery bool
  if g.score >= 100 {
      switch {
      case g.playerLife < 2:             recovery = rand.Intn(3) == 0
      case g.playerLife < 4:             recovery = rand.Intn(5) == 0
      case g.playerLife < maxPlayerLife: recovery = rand.Intn(10) == 0
      }
  }\<close>
\<close>

definition spawn_recovery :: "Input \<Rightarrow> Game \<Rightarrow> bool option" where
  "spawn_recovery inp g =
     (if score g \<ge> 100 then
        (if playerLife g < 2 then map_option (\<lambda>r. r = 0) (Intn 3 (rand_recovery inp))
         else if playerLife g < 4 then map_option (\<lambda>r. r = 0) (Intn 5 (rand_recovery inp))
         else if playerLife g < maxPlayerLife
           then map_option (\<lambda>r. r = 0) (Intn 10 (rand_recovery inp))
         else Some False)
      else Some False)"

definition recovery_label :: "int \<Rightarrow> string" where
  "recovery_label l = (if l = 0 then ''CONTRI-'' @ [CHR 0x0A] @ ''BUTION'' else ''SPONSORING'')"

definition bug_label :: "int \<Rightarrow> int \<Rightarrow> string" where
  "bug_label l ident =
     (if l = 0 then ''BUG'' @ [CHR 0x0A] @ ''#'' @ fmt_d ident
      else ''FEATURE'' @ [CHR 0x0A] @ ''REQUEST'' @ [CHR 0x0A] @ ''#'' @ fmt_d ident)"

text \<open>
  The body of \<^verbatim>\<open>if g.coolTime == 0 { ... }\<close> in \<^verbatim>\<open>updateGame\<close>: one slot is drawn; if it
  is empty an item is created there and the cool time is set.
\<close>

definition spawn :: "Input \<Rightarrow> Game \<Rightarrow> Game option" where
  "spawn inp g =
     (if coolTime g = 0 then
        do {
          j \<leftarrow> Intn 3 (rand_j inp);
          i \<leftarrow> Intn 4 (rand_i inp);
          if items g (j, i) = None then
            do {
              let width = (screenWidth - 128) div 4;
              let height = (screenHeight - 128 - 64) div 3;
              let x = i * width + width div 2 + 128 div 2;
              let y = j * height + height div 2 + 128 div 2 + 64;
              rec \<leftarrow> spawn_recovery inp g;
              g1 \<leftarrow>
                (if rec then
                   do {
                     l \<leftarrow> Intn 2 (rand_label inp);
                     Some (g\<lparr>items := (items g)((j, i) \<mapsto>
                              NewItem (recovery_label l) x y True 400 0)\<rparr>)
                   }
                 else
                   do {
                     let g' = g\<lparr>bugID := bugID g + 1\<rparr>;
                     l \<leftarrow> Intn 2 (rand_label inp);
                     Some (g'\<lparr>items := (items g')((j, i) \<mapsto>
                              NewItem (bug_label l (bugID g')) x y False
                                (spawn_lifetime (score g')) (spawn_baseScore (score g')))\<rparr>)
                   });
              c \<leftarrow> Intn (spawn_coolTime (score g1)) (rand_cool inp);
              Some (g1\<lparr>coolTime := spawn_coolTime (score g1) + c\<rparr>)
            }
          else Some g
        }
      else Some g)"

subsection \<open>One tick of play\<close>

text \<open>The three counters that \<^verbatim>\<open>updateGame\<close> decrements first.\<close>

definition tick_timers :: "Game \<Rightarrow> Game" where
  "tick_timers g =
     (let g1 = (if recoveryTime g > 0 then g\<lparr>recoveryTime := recoveryTime g - 1\<rparr> else g);
          g2 = (if damageTime g1 > 0 then g1\<lparr>damageTime := damageTime g1 - 1\<rparr> else g1)
      in if coolTime g2 > 0 then g2\<lparr>coolTime := coolTime g2 - 1\<rparr> else g2)"

text \<open>
  The body of the loop over the slots. The cursor shape set for an item that stays
  is presentation only and is left out.
\<close>

definition update_slot :: "Input \<Rightarrow> Game \<Rightarrow> int \<times> int \<Rightarrow> Game" where
  "update_slot inp g slot =
     (case items g slot of
        None \<Rightarrow> g
      | Some it0 \<Rightarrow>
          let it = Item_Update inp slot it0 in
          if Item_Resolved it then
            (let g1 = g\<lparr>score := score g + Item_Score it\<rparr>;
                 g2 = (if recovery it
                       then g1\<lparr>playerLife := playerLife g1 + 1, recoveryTime := maxRecoveryTime\<rparr>
                       else g1)
             in g2\<lparr>items := (items g2)(slot := None)\<rparr>)
          else if Item_Alive it then g\<lparr>items := (items g)(slot \<mapsto> it)\<rparr>
          else
            (let g1 = g\<lparr>items := (items g)(slot := None), damageTime := maxDamageTime,
                         playerLife := playerLife g - 1\<rparr>
             in if playerLife g1 \<le> 0 then g1\<lparr>phase := PhaseGameOver\<rparr> else g1))"

text \<open>\<^verbatim>\<open>for j := range g.items { for i := range g.items[j] { ... } }\<close>: rows first.\<close>

definition slots :: "(int \<times> int) list" where
  "slots = concat (map (\<lambda>j. map (\<lambda>i. (j, i)) [0, 1, 2, 3]) [0, 1, 2])"

definition update_items :: "Input \<Rightarrow> Game \<Rightarrow> Game" where
  "update_items inp g = foldl (update_slot inp) g slots"

definition updateGame :: "Input \<Rightarrow> Game \<Rightarrow> Game option" where
  "updateGame inp g = map_option (update_items inp) (spawn inp (tick_timers g))"

definition updateGameOver :: "Input \<Rightarrow> Game \<Rightarrow> Game" where
  "updateGameOver inp g =
     (let g1 = (if damageTime g > 0 then g\<lparr>damageTime := damageTime g - 1\<rparr> else g)
      in if pressed inp then g1\<lparr>phase := PhaseTitle\<rparr> else g1)"

text \<open>\<^verbatim>\<open>func (g *Game) Update() error\<close>\<close>

definition Update :: "Input \<Rightarrow> Game \<Rightarrow> Game option" where
  "Update inp g =
     (case phase g of
        PhaseTitle \<Rightarrow> Some (updateTitle inp g)
      | PhaseGame \<Rightarrow> updateGame inp g
      | PhaseGameOver \<Rightarrow> Some (updateGameOver inp g))"


section \<open>The difficulty curve as the specification writes it\<close>

text \<open>
  The specification gives the curve in real arithmetic, with the score guarded by
  \<open>max(score, 1)\<close> before the logarithm is taken:
  \<^item> \<open>itemLifetime(score)\<close>: \<open>100 * (5 - log10(max(score,1)))\<close>, clamped to \<open>[100, 400]\<close>,
    truncated;
  \<^item> \<open>spawnCooldown(score)\<close>: \<open>raw = 15 * (5 - log10(max(score,1)))\<close>, clamped to \<open>[5, 60]\<close>;
  \<^item> \<open>baseReward(score)\<close>: \<open>max(10, floor(sqrt(score)))\<close>.
\<close>

definition spec_itemLifetime :: "int \<Rightarrow> int" where
  "spec_itemLifetime sc = \<lfloor>min 400 (max 100 (100 * (5 - log 10 (real_of_int (max sc 1)))))\<rfloor>"

definition spec_cooldown_raw :: "int \<Rightarrow> real" where
  "spec_cooldown_raw sc = min 60 (max 5 (15 * (5 - log 10 (real_of_int (max sc 1)))))"

definition spec_baseReward :: "int \<Rightarrow> int" where
  "spec_baseReward sc = max 10 \<lfloor>sqrt (real_of_int sc)\<rfloor>"

section \<open>Names for what a tick draws\<close>

text \<open>The slot \<^verbatim>\<open>(rand.Intn(3), rand.Intn(4))\<close> a spawn attempt of this tick looks at.\<close>

definition chosen_slot :: "Input \<Rightarrow> int \<times> int" where
  "chosen_slot inp = (int (rand_j inp) mod 3, int (rand_i inp) mod 4)"

text \<open>The recovery decision of this tick came out true.\<close>

definition recovery_drawn :: "Input \<Rightarrow> Game \<Rightarrow> bool" where
  "recovery_drawn inp g = (spawn_recovery inp g = Some True)"

section \<open>Concrete states and inputs\<close>

text \<open>A tick without input in which every raw random output is 0.\<close>

definition idle :: Input where
  "idle = \<lparr>pressed = False, pointer_over = (\<lambda>_. False), rand_j = 0, rand_i = 0,
            rand_recovery = 0, rand_label = 0, rand_cool = 0\<rparr>"

text \<open>The state in which play starts: \<^verbatim>\<open>updateTitle\<close> after a press.\<close>

definition game_start :: Game where
  "game_start = (initGame Game_zero)\<lparr>phase := PhaseGame\<rparr>"

text \<open>A board at the start of play with one fresh normal item in slot \<open>(0, 0)\<close>.\<close>

definition board_one :: Game where
  "board_one = game_start\<lparr>items := (items game_start)((0, 0) \<mapsto>
                  NewItem (bug_label 0 1) 288 276 False 400 10)\<rparr>"

text \<open>A state in play with score 100 and one life: a recovery item can be drawn.\<close>

definition low_life :: Game where
  "low_life = game_start\<lparr>score := 100, playerLife := 1\<rparr>"

text \<open>A click or tap that lands on the item of one slot.\<close>

definition click_on :: "int \<times> int \<Rightarrow> Input" where
  "click_on s = idle\<lparr>pressed := True, pointer_over := (\<lambda>s'. s' = s)\<rparr>"

text \<open>
  The player has 6 lives and a recovery item, spawned earlier, is still on the board
  (a recovery item is spawned whenever the draw succeeds at fewer than 6 lives, also
  while another one waits).
\<close>

definition full_life :: Game where
  "full_life = game_start\<lparr>score := 100, playerLife := 6, coolTime := 30,
                 items := (items game_start)((0, 0) \<mapsto>
                   NewItem (recovery_label 0) 288 276 True 400 0)\<rparr>"

text \<open>
  One life left. In \<open>last_stand\<close> two items are in their last tick in slots \<open>(0, 0)\<close>
  and \<open>(0, 1)\<close> and a fresh normal item waits in slot \<open>(0, 2)\<close>; in \<open>last_hope\<close> one item
  is in its last tick in slot \<open>(0, 0)\<close> and a fresh recovery item waits in slot \<open>(0, 2)\<close>.
\<close>

definition last_stand :: Game where
  "last_stand = game_start\<lparr>playerLife := 1, coolTime := 30,
                 items := (items game_start)
                   ((0, 0) \<mapsto> (NewItem (bug_label 0 1) 288 276 False 400 10)\<lparr>lifetime := 1\<rparr>,
                    (0, 1) \<mapsto> (NewItem (bug_label 0 2) 736 276 False 400 10)\<lparr>lifetime := 1\<rparr>,
                    (0, 2) \<mapsto> NewItem (bug_label 0 3) 1184 276 False 400 10)\<rparr>"

definition last_hope :: Game where
  "last_hope = last_stand\<lparr>score := 100,
                 items := (items last_stand)((0, 1) := None, (0, 2) \<mapsto>
                   NewItem (recovery_label 0) 1184 276 True 400 0)\<rparr>"

section \<open>Facts about the floating-point layer\<close>

lemma isqrt_correct:
  "0 \<le> n \<Longrightarrow> 0 \<le> isqrt n \<and> isqrt n * isqrt n \<le> n \<and> n < (isqrt n + 1) * (isqrt n + 1)"
proof (induction n rule: isqrt.induct)
  case (1 n)
  show ?case
  proof (cases "n < 1")
    case True
    with 1 show ?thesis by (simp add: isqrt.simps)
  next
    case False
    define r where "r = isqrt (n div 4)"
    have ih: "0 \<le> r \<and> r * r \<le> n div 4 \<and> n div 4 < (r + 1) * (r + 1)"
      using 1 False by (simp add: r_def)
    have a: "4 * (r * r) \<le> n" using ih by linarith
    have b: "n < 4 * ((r + 1) * (r + 1))" using ih by linarith
    have eq: "isqrt n = (if (2 * r + 1) * (2 * r + 1) \<le> n then 2 * r + 1 else 2 * r)"
      using False by (subst isqrt.simps) (simp add: r_def Let_def)
    show ?thesis
      using a b ih unfolding eq by (auto simp: algebra_simps)
  qed
qed

lemma pow2_pos: "0 < (2::rat) powi k"
  by simp

lemma flog2_bounds:
  assumes "0 < x"
  shows "2 powi (flog2 x) \<le> x \<and> x < 2 powi (flog2 x + 1)"
proof -
  obtain p q where pq: "quotient_of x = (p, q)" by (cases "quotient_of x")
  have q: "0 < q" using quotient_of_denom_pos[OF pq] .
  have x: "x = of_int p / of_int q" using quotient_of_div[OF pq] .
  have p: "0 < p" using assms q unfolding x by (simp add: zero_less_divide_iff)
  define k where "k = bitlen p - bitlen q"
  have bp: "2 ^ nat (bitlen p - 1) \<le> p" "p < 2 ^ nat (bitlen p)" using bitlen_bounds[OF p] by auto
  have bq: "2 ^ nat (bitlen q - 1) \<le> q" "q < 2 ^ nat (bitlen q)" using bitlen_bounds[OF q] by auto
  have bp1: "1 \<le> bitlen p" using p by (simp add: bitlen_alt_def)
  have bq1: "1 \<le> bitlen q" using q by (simp add: bitlen_alt_def)
  have P1: "(2::rat) powi (bitlen p - 1) \<le> of_int p"
  proof -
    have "(2::rat) powi (bitlen p - 1) = 2 ^ nat (bitlen p - 1)" using bp1 by (simp add: power_int_def)
    also have "\<dots> = of_int (2 ^ nat (bitlen p - 1))" by simp
    also have "\<dots> \<le> of_int p" using bp(1) by (simp only: of_int_le_iff)
    finally show ?thesis .
  qed
  have P2: "of_int p < (2::rat) powi (bitlen p)"
  proof -
    have "of_int p < (of_int (2 ^ nat (bitlen p)) :: rat)" using bp(2) by (simp only: of_int_less_iff)
    also have "\<dots> = 2 powi (bitlen p)" using bp1 by (simp add: power_int_def)
    finally show ?thesis .
  qed
  have Q1: "(2::rat) powi (bitlen q - 1) \<le> of_int q"
  proof -
    have "(2::rat) powi (bitlen q - 1) = 2 ^ nat (bitlen q - 1)" using bq1 by (simp add: power_int_def)
    also have "\<dots> = of_int (2 ^ nat (bitlen q - 1))" by simp
    also have "\<dots> \<le> of_int q" using bq(1) by (simp only: of_int_le_iff)
    finally show ?thesis .
  qed
  have Q2: "of_int q < (2::rat) powi (bitlen q)"
  proof -
    have "of_int q < (of_int (2 ^ nat (bitlen q)) :: rat)" using bq(2) by (simp only: of_int_less_iff)
    also have "\<dots> = 2 powi (bitlen q)" using bq1 by (simp add: power_int_def)
    finally show ?thesis .
  qed
  have qpos: "0 < (of_int q :: rat)" using q by simp
  have up: "x < 2 powi (k + 1)"
  proof -
    have "of_int p < (2::rat) powi (k + 1) * 2 powi (bitlen q - 1)"
      using P2 by (simp add: k_def power_int_add[symmetric])
    also have "\<dots> \<le> 2 powi (k + 1) * of_int q"
      using Q1 by (simp add: mult_left_mono)
    finally show ?thesis unfolding x using qpos by (simp add: pos_divide_less_eq)
  qed
  have lo: "2 powi (k - 1) < x"
  proof -
    have "(2::rat) powi (k - 1) * of_int q < 2 powi (k - 1) * 2 powi (bitlen q)"
      using Q2 by (simp add: mult_strict_left_mono)
    also have "\<dots> = 2 powi (bitlen p - 1)"
      by (simp add: k_def power_int_add[symmetric])
    also have "\<dots> \<le> of_int p" by (rule P1)
    finally show ?thesis unfolding x using qpos by (simp add: pos_less_divide_eq)
  qed
  have f: "flog2 x = (if 2 powi k \<le> x then k else k - 1)"
    by (simp add: flog2_def pq k_def Let_def)
  show ?thesis
  proof (cases "2 powi k \<le> x")
    case True
    then show ?thesis using up f by simp
  next
    case False
    then show ?thesis using lo f by simp
  qed
qed

lemma powi2_mono: "a \<le> b \<Longrightarrow> (2::rat) powi a \<le> 2 powi b"
  by (rule power_int_increasing) simp_all

lemma powi2_less_cancel: "(2::rat) powi a < 2 powi b \<Longrightarrow> a < b"
  using powi2_mono[of b a] by (cases "a < b") auto

lemma flog2_unique:
  assumes "2 powi e \<le> x" and "x < 2 powi (e + 1)"
  shows "flog2 x = e"
proof -
  have pos: "0 < x" using assms(1) pow2_pos[of e] by linarith
  have b: "2 powi (flog2 x) \<le> x" "x < 2 powi (flog2 x + 1)" using flog2_bounds[OF pos] by auto
  have "(2::rat) powi e < 2 powi (flog2 x + 1)" using assms(1) b(2) by linarith
  then have 1: "e < flog2 x + 1" by (rule powi2_less_cancel)
  have "(2::rat) powi (flog2 x) < 2 powi (e + 1)" using assms(2) b(1) by linarith
  then have 2: "flog2 x < e + 1" by (rule powi2_less_cancel)
  show ?thesis using 1 2 by simp
qed

lemma round_even_of_int: "round_even (of_int n) = n"
  by (simp add: round_even_def)

lemma round_even_le:
  assumes "q \<le> of_int N"
  shows "round_even q \<le> N"
proof -
  have f: "\<lfloor>q\<rfloor> \<le> N" using assms by (simp add: floor_le_iff)
  show ?thesis
  proof (cases "\<lfloor>q\<rfloor> = N")
    case True
    then have "q = of_int N" using assms by (metis floor_less_iff less_le)
    then show ?thesis by (simp add: round_even_of_int)
  next
    case False
    with f have "\<lfloor>q\<rfloor> + 1 \<le> N" by simp
    then show ?thesis by (simp add: round_even_def Let_def)
  qed
qed

lemma round_even_ge:
  assumes "of_int N \<le> q"
  shows "N \<le> round_even q"
proof -
  have "N \<le> \<lfloor>q\<rfloor>" using assms by (simp add: le_floor_iff)
  then show ?thesis by (simp add: round_even_def Let_def)
qed

lemma powi2_nat: "0 \<le> k \<Longrightarrow> (2::rat) powi k = of_int (2 ^ nat k)"
  by (simp add: power_int_def)

lemma round64_exact:
  assumes x: "x = of_int m * 2 powi k" and m: "\<bar>m\<bar> < 2 ^ 53" and k: "- 1074 \<le> k"
    and big: "\<bar>x\<bar> < 2 powi 1024"
  shows "round64 x = Fin x"
proof (cases "x = 0")
  case True
  then show ?thesis by (simp add: round64_def)
next
  case False
  then have ax: "0 < \<bar>x\<bar>" by simp
  define e where "e = max (flog2 \<bar>x\<bar>) (- 1022)"
  define u :: rat where "u = 2 powi (e - 52)"
  have fb: "2 powi (flog2 \<bar>x\<bar>) \<le> \<bar>x\<bar>" "\<bar>x\<bar> < 2 powi (flog2 \<bar>x\<bar> + 1)"
    using flog2_bounds[OF ax] by auto
  have "\<bar>x\<bar> = of_int \<bar>m\<bar> * 2 powi k" unfolding x by (simp add: abs_mult)
  also have "\<dots> < of_int (2 ^ 53) * 2 powi k"
    using m by (intro mult_strict_right_mono) (simp_all only: of_int_less_iff pow2_pos)
  also have "\<dots> = 2 powi (k + 53)" by (simp add: power_int_add)
  finally have "(2::rat) powi (flog2 \<bar>x\<bar>) < 2 powi (k + 53)" using fb(1) by linarith
  then have "flog2 \<bar>x\<bar> < k + 53" by (rule powi2_less_cancel)
  then have ek: "e \<le> k + 52" using k by (simp add: e_def)
  have upos: "0 < u" by (simp add: u_def)
  have "x / u = of_int m * (2 powi k / 2 powi (e - 52))" by (simp add: u_def x)
  also have "2 powi k / 2 powi (e - 52) = (2::rat) powi (k - (e - 52))"
    by (simp add: power_int_diff)
  also have "\<dots> = of_int (2 ^ nat (k - (e - 52)))" using ek by (intro powi2_nat) simp
  finally have xu: "x / u = of_int (m * 2 ^ nat (k - (e - 52)))" by simp
  have r: "of_int (round_even (x / u)) * u = x"
    unfolding xu round_even_of_int using upos xu by (simp add: field_simps)
  have "(2::rat) powi (flog2 \<bar>x\<bar>) < 2 powi 1024" using fb(1) big by linarith
  then have "flog2 \<bar>x\<bar> < 1024" by (rule powi2_less_cancel)
  then show ?thesis
    using False r by (simp add: round64_def Let_def e_def[symmetric] u_def[symmetric])
qed

lemma float64_of_int_exact:
  assumes "\<bar>i\<bar> < 2 ^ 53"
  shows "float64_of_int i = Fin (of_int i)"
proof -
  have "\<bar>of_int i :: rat\<bar> < of_int (2 ^ 53)"
    using assms by (simp only: of_int_abs[symmetric] of_int_less_iff)
  also have "\<dots> \<le> 2 powi 1024" by simp
  finally have "\<bar>of_int i :: rat\<bar> < 2 powi 1024" .
  then show ?thesis
    unfolding float64_of_int_def
    using assms by (intro round64_exact[where m = i and k = 0]) simp_all
qed

lemma sqrt_floor_isqrt:
  assumes "0 \<le> n"
  shows "\<lfloor>sqrt (real_of_int n)\<rfloor> = isqrt n"
proof -
  define k where "k = isqrt n"
  have k: "0 \<le> k" "k * k \<le> n" "n < (k + 1) * (k + 1)"
    using isqrt_correct[OF assms] by (auto simp: k_def)
  have "(real_of_int k)\<^sup>2 \<le> real_of_int n"
    using k(2) by (metis of_int_le_iff of_int_mult power2_eq_square)
  then have lo: "real_of_int k \<le> sqrt (real_of_int n)" by (rule real_le_rsqrt)
  have "real_of_int n < (real_of_int (k + 1))\<^sup>2"
    using k(3) by (metis of_int_less_iff of_int_mult power2_eq_square)
  then have hi: "sqrt (real_of_int n) < real_of_int (k + 1)"
    using assms k(1) by (intro real_less_lsqrt) simp_all
  show ?thesis unfolding k_def[symmetric] using lo hi by (intro floor_unique) simp_all
qed

lemma isqrt_mono_sq:
  assumes "0 \<le> a" and "a * a \<le> n"
  shows "a \<le> isqrt n"
proof -
  have n: "0 \<le> n" using assms by (meson mult_nonneg_nonneg order_trans)
  have c: "0 \<le> isqrt n" "n < (isqrt n + 1) * (isqrt n + 1)" using isqrt_correct[OF n] by auto
  have "a * a < (isqrt n + 1) * (isqrt n + 1)" using assms(2) c(2) by linarith
  then have "a < isqrt n + 1"
    using c(1) assms(1) by (meson add_increasing2 mult_less_cancel_left_pos mult_right_less_imp_less not_less order_trans zero_le_one less_le_trans linorder_not_le mult_mono)
  then show ?thesis by simp
qed

lemma isqrt_less_sq:
  assumes "0 \<le> n" and "0 \<le> b" and "n < b * b"
  shows "isqrt n < b"
proof -
  have c: "0 \<le> isqrt n" "isqrt n * isqrt n \<le> n" using isqrt_correct[OF assms(1)] by auto
  have "isqrt n * isqrt n < b * b" using c(2) assms(3) by linarith
  then show ?thesis
    using c(1) assms(2) by (meson mult_mono not_less order_trans linorder_not_le)
qed

lemma sqrt_round_int:
  assumes s0: "0 < s" and s52: "s < 2 ^ 52"
  shows "\<lfloor>sqrt_round (of_int s)\<rfloor> = isqrt s"
proof -
  define f where "f = flog2 (of_int s)"
  define e where "e = f div 2"
  have spos: "0 < (of_int s :: rat)" using s0 by simp
  have fb: "2 powi f \<le> (of_int s :: rat)" "(of_int s :: rat) < 2 powi (f + 1)"
    using flog2_bounds[OF spos] by (auto simp: f_def)
  have "(2::rat) powi 0 \<le> of_int s" using s0 by simp
  then have "(2::rat) powi 0 < 2 powi (f + 1)" using fb(2) by linarith
  then have f0: "0 \<le> f" using powi2_less_cancel[of 0 "f + 1"] by simp
  have "(of_int s :: rat) < of_int (2 ^ 52)" using s52 by (simp only: of_int_less_iff)
  then have "(2::rat) powi f < 2 powi 52" using fb(1) by simp
  then have f51: "f < 52" by (rule powi2_less_cancel)
  have e0: "0 \<le> e" and e25: "e \<le> 25" using f0 f51 by (auto simp: e_def)
  have fe: "f + 1 \<le> 2 * e + 2" by (simp add: e_def)
  define W :: int where "W = 2 ^ nat (52 - e)"
  define V :: int where "V = 2 ^ nat (e + 1)"
  have Wpos: "0 < W" by (simp add: W_def)
  have u: "(2::rat) powi (e - 52) = 1 / of_int W"
  proof -
    have "(2::rat) powi (e - 52) = inverse (2 powi (52 - e))"
      by (simp add: power_int_minus[symmetric])
    also have "(2::rat) powi (52 - e) = of_int W"
      unfolding W_def using e25 by (intro powi2_nat) simp
    finally show ?thesis by (simp add: inverse_eq_divide)
  qed
  have X: "of_int s / ((2::rat) powi (e - 52) * 2 powi (e - 52)) = of_int (s * W * W)"
    unfolding u using Wpos by simp
  define n where "n = isqrt (s * W * W)"
  define k where "k = isqrt s"
  have sWW: "0 \<le> s * W * W" using s0 Wpos by simp
  have n: "0 \<le> n" "n * n \<le> s * W * W" "s * W * W < (n + 1) * (n + 1)"
    using isqrt_correct[OF sWW] by (auto simp: n_def)
  have k: "0 \<le> k" "k * k \<le> s" "s < (k + 1) * (k + 1)"
    using isqrt_correct[of s] s0 by (auto simp: k_def)
  define m where "m = (if s * W * W \<le> n * n + n then n else n + 1)"
  have cmp1: "((of_int (s * W * W) :: rat) < (of_int n + 1 / 2) * (of_int n + 1 / 2))
                = (s * W * W \<le> n * n + n)"
  proof -
    have "(of_int n + 1 / 2) * (of_int n + 1 / 2) = (of_int (n * n + n) :: rat) + 1 / 4"
      by (simp add: algebra_simps)
    moreover have "((of_int (s * W * W) :: rat) < of_int (n * n + n) + 1 / 4)
                = (s * W * W \<le> n * n + n)"
    proof
      assume "(of_int (s * W * W) :: rat) < of_int (n * n + n) + 1 / 4"
      then have "(of_int (s * W * W) :: rat) < of_int (n * n + n + 1)" by simp
      then have "s * W * W < n * n + n + 1" by (simp only: of_int_less_iff)
      then show "s * W * W \<le> n * n + n" by simp
    next
      assume "s * W * W \<le> n * n + n"
      then have "(of_int (s * W * W) :: rat) \<le> of_int (n * n + n)" by (simp only: of_int_le_iff)
      then show "(of_int (s * W * W) :: rat) < of_int (n * n + n) + 1 / 4" by simp
    qed
    ultimately show ?thesis by simp
  qed
  have cmp2: "\<not> s * W * W \<le> n * n + n \<Longrightarrow>
                (of_int n + 1 / 2) * (of_int n + 1 / 2) < (of_int (s * W * W) :: rat)"
  proof -
    assume "\<not> s * W * W \<le> n * n + n"
    then have "n * n + n + 1 \<le> s * W * W" by simp
    then have "(of_int (n * n + n + 1) :: rat) \<le> of_int (s * W * W)" by (simp only: of_int_le_iff)
    moreover have "(of_int n + 1 / 2) * (of_int n + 1 / 2) = (of_int (n * n + n) :: rat) + 1 / 4"
      by (simp add: algebra_simps)
    ultimately show ?thesis by simp
  qed
  have sr0: "sqrt_round (of_int s) =
      of_int (if s * W * W \<le> n * n + n then n
              else if (of_int n + 1 / 2) * (of_int n + 1 / 2) < (of_int (s * W * W) :: rat)
                   then n + 1 else if even n then n else n + 1) * 2 powi (e - 52)"
    by (simp only: sqrt_round_def Let_def f_def[symmetric] e_def[symmetric] X floor_of_int
        n_def[symmetric] cmp1)
  have sr: "sqrt_round (of_int s) = of_int m / of_int W"
  proof (cases "s * W * W \<le> n * n + n")
    case True
    then show ?thesis unfolding sr0 u by (simp add: m_def)
  next
    case False
    then show ?thesis unfolding sr0 u using cmp2[OF False] by (simp add: m_def)
  qed
  have kW_n: "k * W \<le> n"
  proof -
    have "(k * W) * (k * W) = (k * k) * (W * W)" by (simp add: algebra_simps)
    also have "\<dots> \<le> s * (W * W)" using k(2) Wpos by (intro mult_right_mono) simp_all
    finally have "(k * W) * (k * W) \<le> s * W * W" by (simp add: algebra_simps)
    then show ?thesis unfolding n_def using k(1) Wpos by (intro isqrt_mono_sq) simp_all
  qed
  have lo: "k * W \<le> m" using kW_n by (simp add: m_def)
  have kV: "k + 1 \<le> V"
  proof -
    have "(of_int s :: rat) < 2 powi (2 * e + 2)"
      using fb(2) powi2_mono[OF fe] by linarith
    also have "\<dots> = of_int (2 ^ nat (2 * e + 2))" using e0 by (intro powi2_nat) simp
    finally have "s < 2 ^ nat (2 * e + 2)" by (simp only: of_int_less_iff)
    also have "(2::int) ^ nat (2 * e + 2) = V * V"
      using e0 by (simp add: V_def power_add[symmetric] nat_add_distrib nat_mult_distrib)
    finally have "s < V * V" .
    then have "k < V" unfolding k_def using s0 by (intro isqrt_less_sq) (simp_all add: V_def)
    then show ?thesis by simp
  qed
  have VW: "V \<le> W"
    unfolding V_def W_def using e25 e0 by (intro power_increasing) simp_all
  have hi: "m < (k + 1) * W"
  proof -
    define M where "M = (k + 1) * W"
    have "s * (W * W) < (k + 1) * (k + 1) * (W * W)"
      using k(3) Wpos by (intro mult_strict_right_mono) simp_all
    then have "s * W * W < M * M" by (simp add: M_def algebra_simps)
    then have nM: "n < M"
      unfolding n_def using sWW k(1) Wpos by (intro isqrt_less_sq) (simp_all add: M_def)
    show ?thesis
    proof (cases "n + 1 < M")
      case True
      then show ?thesis by (simp add: m_def M_def)
    next
      case False
      with nM have nM1: "n = M - 1" by simp
      have "s + 1 \<le> (k + 1) * (k + 1)" using k(3) by simp
      then have "(s + 1) * (W * W) \<le> (k + 1) * (k + 1) * (W * W)"
        using Wpos by (intro mult_right_mono) simp_all
      then have 1: "s * W * W \<le> M * M - W * W" by (simp add: M_def algebra_simps)
      have "M = (k + 1) * W" by (simp add: M_def)
      also have "\<dots> \<le> W * W" using kV VW Wpos by (intro mult_right_mono) simp_all
      finally have 2: "M \<le> W * W" .
      have "n * n + n = M * M - M" unfolding nM1 by (simp add: algebra_simps)
      then have "s * W * W \<le> n * n + n" using 1 2 by linarith
      then show ?thesis using nM by (simp add: m_def M_def)
    qed
  qed
  have "\<lfloor>(of_int m :: rat) / of_int W\<rfloor> = m div W" by (rule floor_divide_of_int_eq)
  also have "m div W = k"
  proof (rule int_div_pos_eq)
    show "m = W * k + (m - W * k)" by simp
    show "0 \<le> m - W * k" using lo by (simp add: mult.commute)
    show "m - W * k < W" using hi by (simp add: algebra_simps)
  qed
  finally show ?thesis unfolding sr k_def .
qed


lemma max_fl_Fin: "max_fl (Fin a) (Fin b) = Fin (max a b)"
  by (auto simp: max_fl_def max_def)

lemma int_of_fl_floor_rat:
  fixes z :: rat
  assumes "0 \<le> z" "\<lfloor>z\<rfloor> < 2 ^ 63"
  shows "int_of_fl (Fin z) = \<lfloor>z\<rfloor>"
proof -
  have "0 \<le> \<lfloor>z\<rfloor>" using assms by simp
  then show ?thesis using assms by (simp add: trunc_int_def minInt64_def)
qed

lemma isqrt_le_self: "0 \<le> n \<Longrightarrow> isqrt n \<le> n"
proof -
  assume n: "0 \<le> n"
  have c: "0 \<le> isqrt n" "isqrt n * isqrt n \<le> n" using isqrt_correct[OF n] by auto
  show ?thesis
  proof (cases "isqrt n = 0")
    case True
    then show ?thesis using n by simp
  next
    case False
    with c(1) have "1 \<le> isqrt n" by simp
    then have "isqrt n * 1 \<le> isqrt n * isqrt n" using c(1) by (intro mult_left_mono) simp_all
    then show ?thesis using c(2) by simp
  qed
qed

lemma spawn_baseScore_isqrt:
  assumes "0 \<le> sc" and "sc < 2 ^ 52"
  shows "spawn_baseScore sc = max 10 (isqrt sc)"
proof -
  have ex: "float64_of_int sc = Fin (of_int sc)"
    using assms by (intro float64_of_int_exact) simp
  show ?thesis
  proof (cases "sc = 0")
    case True
    have "isqrt 0 = 0" by (simp add: isqrt.simps)
    moreover have "float64_of_int 0 = Fin 0" using ex True by simp
    ultimately show ?thesis
      using True by (simp add: spawn_baseScore_def max_fl_Fin trunc_int_def minInt64_def)
  next
    case False
    with assms have pos: "0 < sc" by simp
    define v where "v = sqrt_round (of_int sc)"
    have fv: "\<lfloor>v\<rfloor> = isqrt sc" unfolding v_def using pos assms(2) by (rule sqrt_round_int)
    have "isqrt sc \<le> sc" using assms(1) by (rule isqrt_le_self)
    then have small: "isqrt sc < 2 ^ 63" using assms(2) by simp
    have v0: "0 \<le> v" using fv isqrt_correct[OF assms(1)] by (simp add: floor_eq_iff)
    have "spawn_baseScore sc = int_of_fl (Fin (max 10 v))"
      using pos by (simp add: spawn_baseScore_def ex max_fl_Fin v_def)
    also have "\<dots> = \<lfloor>max 10 v\<rfloor>"
    proof (rule int_of_fl_floor_rat)
      show "0 \<le> max 10 v" by simp
      have "\<lfloor>max 10 v\<rfloor> = max \<lfloor>10::rat\<rfloor> \<lfloor>v\<rfloor>"
        by (rule max_of_mono[symmetric]) (simp add: mono_def floor_mono)
      then show "\<lfloor>max 10 v\<rfloor> < 2 ^ 63" using small fv by simp
    qed
    also have "\<dots> = max \<lfloor>10::rat\<rfloor> \<lfloor>v\<rfloor>"
      by (rule max_of_mono[symmetric]) (simp add: mono_def floor_mono)
    finally show ?thesis by (simp add: fv)
  qed
qed

lemma spawn_baseScore_spec:
  assumes "0 \<le> sc" and "sc < 2 ^ 52"
  shows "spawn_baseScore sc = spec_baseReward sc"
  using spawn_baseScore_isqrt[OF assms] sqrt_floor_isqrt[OF assms(1)]
  by (simp add: spec_baseReward_def)


section \<open>Facts about the logarithmic curve\<close>

lemma log10_Fin: "log10 = Fin (ln 10)"
  by (simp add: log10_def)

lemma curve_pos:
  assumes "0 < sc"
  shows "fl_mul (Fin c) (fl_sub (Fin 5) (fl_div (Log (xfloat_of_int sc)) log10))
           = Fin (c * (5 - log 10 (real_of_int sc)))"
  using assms by (simp add: xfloat_of_int_def log10_Fin log_def)

lemma curve_zero:
  assumes "0 < c"
  shows "fl_mul (Fin c) (fl_sub (Fin 5) (fl_div (Log (xfloat_of_int 0)) log10)) = PInf"
  using assms by (simp add: xfloat_of_int_def log10_Fin)

lemma clamp_Fin: "min_fl (Fin hi) (max_fl (Fin lo) (Fin v)) = Fin (min hi (max lo v))"
  by (auto simp: min_fl_def max_fl_def min_def max_def)

lemma clamp_PInf: "min_fl (Fin hi) (max_fl (Fin lo) PInf) = Fin hi"
  by (simp add: min_fl_def max_fl_def)

lemma int_of_fl_floor:
  fixes z :: real
  assumes "0 \<le> z" "z < 2 ^ 63"
  shows "int_of_fl (Fin z) = \<lfloor>z\<rfloor>"
proof -
  have "0 \<le> \<lfloor>z\<rfloor>" using assms by simp
  moreover have "\<lfloor>z\<rfloor> < 2 ^ 63" using assms by (simp add: floor_less_iff)
  ultimately show ?thesis using assms by (simp add: trunc_int_def minInt64_def)
qed

lemma spawn_lifetime_spec:
  assumes "0 \<le> sc"
  shows "spawn_lifetime sc = spec_itemLifetime sc"
proof (cases "sc = 0")
  case True
  then show ?thesis
    by (simp add: spawn_lifetime_def spec_itemLifetime_def curve_zero clamp_PInf
        trunc_int_def minInt64_def)
next
  case False
  with assms have pos: "0 < sc" by simp
  define v where "v = min 400 (max 100 (100 * (5 - log 10 (real_of_int sc))))"
  have "spawn_lifetime sc = int_of_fl (Fin v)"
    unfolding spawn_lifetime_def v_def curve_pos[OF pos] clamp_Fin ..
  also have "\<dots> = \<lfloor>v\<rfloor>"
    by (rule int_of_fl_floor) (simp_all add: v_def)
  also have "\<dots> = spec_itemLifetime sc"
    using pos by (simp add: spec_itemLifetime_def v_def max_absorb1)
  finally show ?thesis .
qed

lemma spawn_coolTime_spec:
  assumes "0 \<le> sc"
  shows "spawn_coolTime sc = \<lfloor>spec_cooldown_raw sc\<rfloor>"
proof (cases "sc = 0")
  case True
  then show ?thesis
    by (simp add: spawn_coolTime_def spec_cooldown_raw_def curve_zero clamp_PInf
        trunc_int_def minInt64_def)
next
  case False
  with assms have pos: "0 < sc" by simp
  define v where "v = min 60 (max 5 (15 * (5 - log 10 (real_of_int sc))))"
  have "spawn_coolTime sc = int_of_fl (Fin v)"
    unfolding spawn_coolTime_def v_def curve_pos[OF pos] clamp_Fin ..
  also have "\<dots> = \<lfloor>v\<rfloor>"
    by (rule int_of_fl_floor) (simp_all add: v_def)
  also have "\<dots> = \<lfloor>spec_cooldown_raw sc\<rfloor>"
    using pos by (simp add: spec_cooldown_raw_def v_def max_absorb1)
  finally show ?thesis .
qed

lemma spec_itemLifetime_range: "100 \<le> spec_itemLifetime sc \<and> spec_itemLifetime sc \<le> 400"
  unfolding spec_itemLifetime_def by (simp add: le_floor_iff floor_le_iff) 

lemma spec_cooldown_raw_range: "5 \<le> spec_cooldown_raw sc \<and> spec_cooldown_raw sc \<le> 60"
  unfolding spec_cooldown_raw_def by simp

lemma spec_cooldown_raw_mono:
  assumes "a \<le> b"
  shows "spec_cooldown_raw b \<le> spec_cooldown_raw a"
proof -
  have "real_of_int (max a 1) \<le> real_of_int (max b 1)" using assms by simp
  moreover have "0 < real_of_int (max a 1)" by simp
  ultimately have "log 10 (real_of_int (max a 1)) \<le> log 10 (real_of_int (max b 1))"
    by (subst log_le_cancel_iff) simp_all
  then show ?thesis unfolding spec_cooldown_raw_def by (simp add: max.coboundedI2 min.coboundedI2)
qed

lemma spec_itemLifetime_mono:
  assumes "a \<le> b"
  shows "spec_itemLifetime b \<le> spec_itemLifetime a"
proof -
  have "real_of_int (max a 1) \<le> real_of_int (max b 1)" using assms by simp
  moreover have "0 < real_of_int (max a 1)" by simp
  ultimately have "log 10 (real_of_int (max a 1)) \<le> log 10 (real_of_int (max b 1))"
    by (subst log_le_cancel_iff) simp_all
  then have "min 400 (max 100 (100 * (5 - log 10 (real_of_int (max b 1)))))
           \<le> min (400::real) (max 100 (100 * (5 - log 10 (real_of_int (max a 1)))))"
    by (simp add: max.coboundedI2 min.coboundedI2)
  then show ?thesis unfolding spec_itemLifetime_def by (rule floor_mono)
qed

lemma log10_pow: "log 10 (10 ^ n) = real n"
  by (simp add: log_nat_power)

lemma spec_itemLifetime_0: "spec_itemLifetime 0 = 400"
  by (simp add: spec_itemLifetime_def)

lemma spec_itemLifetime_1000: "spec_itemLifetime 1000 = 200"
proof -
  have "log 10 (1000::real) = 3" using log10_pow[of 3] by simp
  then show ?thesis by (simp add: spec_itemLifetime_def)
qed

lemma spec_itemLifetime_100000: "spec_itemLifetime 100000 = 100"
proof -
  have "log 10 (100000::real) = 5" using log10_pow[of 5] by simp
  then show ?thesis by (simp add: spec_itemLifetime_def)
qed

section \<open>Facts about spawning and the slot loop\<close>

lemma Intn_pos: "0 < n \<Longrightarrow> Intn n raw = Some (int raw mod n)"
  by (simp add: Intn_def)

lemma spawn_recovery_eq:
  "spawn_recovery inp g =
     Some (100 \<le> score g \<and>
           (if playerLife g < 2 then int (rand_recovery inp) mod 3 = 0
            else if playerLife g < 4 then int (rand_recovery inp) mod 5 = 0
            else if playerLife g < 6 then int (rand_recovery inp) mod 10 = 0
            else False))"
  by (simp add: spawn_recovery_def Intn_pos)

lemma one_success:
  assumes "0 < n"
  shows "card {r. r < n \<and> int r mod int n = 0} = 1"
proof -
  have "{r. r < n \<and> int r mod int n = 0} = {0}"
    using assms by (auto simp: zmod_int[symmetric])
  then show ?thesis by simp
qed


lemma spawn_coolTime_range:
  assumes "0 \<le> sc"
  shows "5 \<le> spawn_coolTime sc \<and> spawn_coolTime sc \<le> 60"
  using spec_cooldown_raw_range[of sc]
  by (simp add: spawn_coolTime_spec[OF assms] le_floor_iff floor_le_iff)

lemma spawn_idle:
  assumes "\<not> (coolTime g = 0 \<and> items g (chosen_slot inp) = None)"
  shows "spawn inp g = Some g"
  using assms by (auto simp: spawn_def chosen_slot_def Intn_pos)

lemma spawn_fire:
  assumes "coolTime g = 0" and "items g (chosen_slot inp) = None" and "0 \<le> score g"
  shows "spawn inp g =
     Some (let (j, i) = chosen_slot inp;
               x = i * 448 + 224 + 64;
               y = j * 296 + 148 + 64 + 64;
               l = int (rand_label inp) mod 2;
               c = spawn_coolTime (score g)
           in if recovery_drawn inp g
              then g\<lparr>items := (items g)((j, i) \<mapsto> NewItem (recovery_label l) x y True 400 0),
                     coolTime := c + int (rand_cool inp) mod c\<rparr>
              else g\<lparr>bugID := bugID g + 1,
                     items := (items g)((j, i) \<mapsto>
                        NewItem (bug_label l (bugID g + 1)) x y False
                          (spawn_lifetime (score g)) (spawn_baseScore (score g))),
                     coolTime := c + int (rand_cool inp) mod c\<rparr>)"
proof -
  have c: "0 < spawn_coolTime (score g)"
    using spawn_coolTime_range[OF assms(3)] by simp
  show ?thesis
    using assms(1,2) c
    by (simp add: spawn_def chosen_slot_def Intn_pos spawn_recovery_eq recovery_drawn_def Let_def)
qed

lemma slots_eq:
  "slots = [(0,0), (0,1), (0,2), (0,3), (1,0), (1,1), (1,2), (1,3), (2,0), (2,1), (2,2), (2,3)]"
  by (simp add: slots_def)

lemma update_slot_empty: "items g s = None \<Longrightarrow> update_slot inp g s = g"
  by (simp add: update_slot_def)

lemma update_slot_resolved:
  assumes "items g s = Some it0" and "resolved (Item_Update inp s it0)"
  shows "update_slot inp g s =
           g\<lparr>score := score g + Item_Score (Item_Update inp s it0),
             playerLife := (if recovery it0 then playerLife g + 1 else playerLife g),
             recoveryTime := (if recovery it0 then maxRecoveryTime else recoveryTime g),
             items := (items g)(s := None)\<rparr>"
  using assms by (simp add: update_slot_def Item_Resolved_def Let_def Item_Update_def)

lemma update_slot_alive:
  assumes "items g s = Some it0" and "\<not> resolved (Item_Update inp s it0)"
    and "0 < lifetime (Item_Update inp s it0)"
  shows "update_slot inp g s = g\<lparr>items := (items g)(s \<mapsto> Item_Update inp s it0)\<rparr>"
  using assms by (simp add: update_slot_def Item_Resolved_def Item_Alive_def Let_def)

lemma update_slot_expired:
  assumes "items g s = Some it0" and "\<not> resolved (Item_Update inp s it0)"
    and "\<not> 0 < lifetime (Item_Update inp s it0)"
  shows "update_slot inp g s =
           g\<lparr>items := (items g)(s := None), damageTime := maxDamageTime,
             playerLife := playerLife g - 1,
             phase := (if playerLife g - 1 \<le> 0 then PhaseGameOver else phase g)\<rparr>"
  using assms by (simp add: update_slot_def Item_Resolved_def Item_Alive_def Let_def)

lemma update_slot_phase_blind:
  "update_slot inp (g\<lparr>phase := PhaseGameOver\<rparr>) s = (update_slot inp g s)\<lparr>phase := PhaseGameOver\<rparr>"
  by (simp add: update_slot_def Let_def split: option.split)

lemma update_slot_coolTime: "coolTime (update_slot inp g s) = coolTime g"
  by (simp add: update_slot_def Let_def split: option.split)

lemma foldl_update_slot_coolTime: "coolTime (foldl (update_slot inp) g ss) = coolTime g"
  by (induction ss arbitrary: g) (simp_all add: update_slot_coolTime)

lemma update_items_coolTime: "coolTime (update_items inp g) = coolTime g"
  by (simp add: update_items_def foldl_update_slot_coolTime)

section \<open>The claims\<close>

text \<open>
  Claim C9, amended. For every score from 0 up to \<open>2\<^sup>5\<^sup>2\<close> (excluded) the base score of
  a normal item, \<^verbatim>\<open>int(max(10, math.Sqrt(float64(score))))\<close>, equals
  \<open>max(10, floor(sqrt(score)))\<close>, and so is at least 10.
\<close>

theorem baseReward_below_2_52:
  "0 \<le> sc \<and> sc < 2 ^ 52 \<longrightarrow>
     spawn_baseScore sc = spec_baseReward sc \<and> 10 \<le> spawn_baseScore sc"
  by (simp add: spawn_baseScore_spec spec_baseReward_def)

theorem baseReward_below_2_52_witness:
  "spawn_baseScore 10000 = spec_baseReward 10000 \<and> 10 \<le> spawn_baseScore 10000
   \<and> spec_baseReward 10000 = 100"
proof -
  have "isqrt 10000 = 100" by code_simp
  then have "spec_baseReward 10000 = 100"
    using sqrt_floor_isqrt[of 10000] by (simp add: spec_baseReward_def)
  then show ?thesis using baseReward_below_2_52[of 10000] by simp
qed

text \<open>
  At the score \<open>2\<^sup>5\<^sup>2 + 2\<^sup>2\<^sup>7\<close>, which \<^verbatim>\<open>float64\<close> represents exactly, the correctly
  rounded square root is \<open>2\<^sup>2\<^sup>6 + 1\<close>, one more than \<open>floor(sqrt(score))\<close>.
\<close>

theorem baseReward_rounds_up:
  "spawn_baseScore 4503599761588224 = 67108865
   \<and> spec_baseReward 4503599761588224 = 67108864"
proof -
  have "spawn_baseScore 4503599761588224 = 67108865" by code_simp
  moreover have "isqrt 4503599761588224 = 67108864" by code_simp
  then have "spec_baseReward 4503599761588224 = 67108864"
    using sqrt_floor_isqrt[of 4503599761588224] by (simp add: spec_baseReward_def)
  ultimately show ?thesis by simp
qed

text \<open>
  Claim C6. For every score \<open>\<ge> 0\<close> the lifetime of a normal item is
  \<open>100 * (5 - log10(max(score,1)))\<close> clamped to \<open>[100, 400]\<close> and truncated; it lies in
  \<open>[100, 400]\<close>, does not increase with the score, and is 400 at score 0, 200 at score
  1000 and 100 at score 100000.
\<close>

theorem itemLifetime_curve:
  "(0 \<le> sc \<longrightarrow> spawn_lifetime sc = spec_itemLifetime sc
                \<and> 100 \<le> spawn_lifetime sc \<and> spawn_lifetime sc \<le> 400)
   \<and> (0 \<le> a \<and> a \<le> b \<longrightarrow> spawn_lifetime b \<le> spawn_lifetime a)
   \<and> spawn_lifetime 0 = 400 \<and> spawn_lifetime 1000 = 200 \<and> spawn_lifetime 100000 = 100"
  using spec_itemLifetime_range[of sc] spec_itemLifetime_mono[of a b]
  by (simp add: spawn_lifetime_spec spec_itemLifetime_0 spec_itemLifetime_1000
      spec_itemLifetime_100000)

theorem itemLifetime_curve_witness:
  "spawn_lifetime 100 = spec_itemLifetime 100 \<and> spawn_lifetime 100 = 300
   \<and> spawn_lifetime 1000 \<le> spawn_lifetime 100"
proof -
  have "log 10 (100::real) = 2" using log10_pow[of 2] by simp
  then have "spec_itemLifetime 100 = 300" by (simp add: spec_itemLifetime_def)
  then show ?thesis using itemLifetime_curve[of 100 100 1000] by simp
qed

lemma spawn_fire_coolTime:
  assumes "coolTime g = 0" and "items g (chosen_slot inp) = None" and "0 \<le> score g"
  shows "\<exists>g'. spawn inp g = Some g' \<and>
           coolTime g' = spawn_coolTime (score g) + int (rand_cool inp) mod spawn_coolTime (score g)"
  by (cases "chosen_slot inp") (simp add: spawn_fire[OF assms] Let_def)

lemma spawn_chosen_slot_cool [simp]: "chosen_slot (inp\<lparr>rand_cool := r\<rparr>) = chosen_slot inp"
  by (simp add: chosen_slot_def)

text \<open>
  Claim C7. With \<open>raw = 15 * (5 - log10(max(score,1)))\<close> clamped to \<open>[5, 60]\<close>, which does
  not increase with the score, a successful spawn sets the cool time to
  \<open>floor(raw) + rand.Intn(floor(raw))\<close>. The addend takes every value from 0 to
  \<open>floor(raw) - 1\<close> for a suitable random output, so the cool time set lies in
  \<open>[floor(raw), 2 * floor(raw) - 1]\<close>.
\<close>

theorem cooldown_after_spawn:
  "(0 \<le> score g \<and> coolTime g = 0 \<and> items g (chosen_slot inp) = None \<longrightarrow>
      (\<exists>g'. spawn inp g = Some g'
         \<and> coolTime g' = \<lfloor>spec_cooldown_raw (score g)\<rfloor>
                           + int (rand_cool inp) mod \<lfloor>spec_cooldown_raw (score g)\<rfloor>
         \<and> \<lfloor>spec_cooldown_raw (score g)\<rfloor> \<le> coolTime g'
         \<and> coolTime g' \<le> 2 * \<lfloor>spec_cooldown_raw (score g)\<rfloor> - 1)
      \<and> (\<forall>k. 0 \<le> k \<and> k < \<lfloor>spec_cooldown_raw (score g)\<rfloor> \<longrightarrow>
            (\<exists>r g'. spawn (inp\<lparr>rand_cool := r\<rparr>) g = Some g'
               \<and> coolTime g' = \<lfloor>spec_cooldown_raw (score g)\<rfloor> + k)))
   \<and> 5 \<le> spec_cooldown_raw sc \<and> spec_cooldown_raw sc \<le> 60
   \<and> (a \<le> b \<longrightarrow> spec_cooldown_raw b \<le> spec_cooldown_raw a)"
proof -
  have main: "(\<exists>g'. spawn inp g = Some g'
         \<and> coolTime g' = \<lfloor>spec_cooldown_raw (score g)\<rfloor>
                           + int (rand_cool inp) mod \<lfloor>spec_cooldown_raw (score g)\<rfloor>
         \<and> \<lfloor>spec_cooldown_raw (score g)\<rfloor> \<le> coolTime g'
         \<and> coolTime g' \<le> 2 * \<lfloor>spec_cooldown_raw (score g)\<rfloor> - 1)
      \<and> (\<forall>k. 0 \<le> k \<and> k < \<lfloor>spec_cooldown_raw (score g)\<rfloor> \<longrightarrow>
            (\<exists>r g'. spawn (inp\<lparr>rand_cool := r\<rparr>) g = Some g'
               \<and> coolTime g' = \<lfloor>spec_cooldown_raw (score g)\<rfloor> + k))"
    if h: "0 \<le> score g" "coolTime g = 0" "items g (chosen_slot inp) = None"
  proof -
    define c where "c = \<lfloor>spec_cooldown_raw (score g)\<rfloor>"
    have c: "spawn_coolTime (score g) = c" by (simp add: c_def spawn_coolTime_spec[OF h(1)])
    have cpos: "0 < c" using spawn_coolTime_range[OF h(1)] c by simp
    obtain g' where g': "spawn inp g = Some g'"
      "coolTime g' = c + int (rand_cool inp) mod c"
      using spawn_fire_coolTime[OF h(2) h(3) h(1)] c by auto
    have m: "0 \<le> int (rand_cool inp) mod c" "int (rand_cool inp) mod c < c"
      using cpos by simp_all
    have first: "\<exists>g'. spawn inp g = Some g' \<and> coolTime g' = c + int (rand_cool inp) mod c
        \<and> c \<le> coolTime g' \<and> coolTime g' \<le> 2 * c - 1"
      using g' m by auto
    have second: "\<exists>r g'. spawn (inp\<lparr>rand_cool := r\<rparr>) g = Some g' \<and> coolTime g' = c + k"
      if k: "0 \<le> k \<and> k < c" for k
    proof -
      have "items g (chosen_slot (inp\<lparr>rand_cool := nat k\<rparr>)) = None" using h(3) by simp
      from spawn_fire_coolTime[OF h(2) this h(1)] k c
      show ?thesis by auto
    qed
    show ?thesis unfolding c_def[symmetric] using first second by blast
  qed
  show ?thesis
    using main spec_cooldown_raw_range[of sc] spec_cooldown_raw_mono[of a b] by blast
qed

theorem cooldown_after_spawn_witness:
  "map_option coolTime (spawn idle game_start) = Some 60
   \<and> map_option coolTime (spawn (idle\<lparr>rand_cool := 59\<rparr>) game_start) = Some 119
   \<and> \<lfloor>spec_cooldown_raw 0\<rfloor> = 60"
proof -
  have r: "\<lfloor>spec_cooldown_raw 0\<rfloor> = 60" by (simp add: spec_cooldown_raw_def)
  have g: "score game_start = 0" "coolTime game_start = 0" "items game_start s = None" for s
    by (simp_all add: game_start_def initGame_def Game_zero_def)
  show ?thesis
    using cooldown_after_spawn[of game_start idle 0 0 0]
          cooldown_after_spawn[of game_start "idle\<lparr>rand_cool := 59\<rparr>" 0 0 0] r g
    by (auto simp: idle_def)
qed

lemma spawn_fire_item:
  assumes "coolTime g = 0" and "items g (chosen_slot inp) = None" and "0 \<le> score g"
  shows "\<exists>g' it. spawn inp g = Some g'
           \<and> items g' = (items g)(chosen_slot inp \<mapsto> it)
           \<and> recovery it = recovery_drawn inp g
           \<and> lifetime it = initLifetime it
           \<and> initLifetime it = (if recovery_drawn inp g then 400 else spawn_lifetime (score g))
           \<and> baseScore it = (if recovery_drawn inp g then 0 else spawn_baseScore (score g))
           \<and> coolTime g' = spawn_coolTime (score g)
                             + int (rand_cool inp) mod spawn_coolTime (score g)
           \<and> score g' = score g \<and> playerLife g' = playerLife g \<and> phase g' = phase g"
proof (cases "chosen_slot inp")
  case (Pair j i)
  define c where "c = spawn_coolTime (score g) + int (rand_cool inp) mod spawn_coolTime (score g)"
  define it where "it = (if recovery_drawn inp g
      then NewItem (recovery_label (int (rand_label inp) mod 2))
             (i * 448 + 224 + 64) (j * 296 + 148 + 64 + 64) True 400 0
      else NewItem (bug_label (int (rand_label inp) mod 2) (bugID g + 1))
             (i * 448 + 224 + 64) (j * 296 + 148 + 64 + 64) False
             (spawn_lifetime (score g)) (spawn_baseScore (score g)))"
  define g' where "g' = (if recovery_drawn inp g
      then g\<lparr>items := (items g)((j, i) \<mapsto> it), coolTime := c\<rparr>
      else g\<lparr>bugID := bugID g + 1, items := (items g)((j, i) \<mapsto> it), coolTime := c\<rparr>)"
  have "spawn inp g = Some g'"
    unfolding spawn_fire[OF assms] Pair by (simp add: g'_def it_def c_def Let_def)
  then show ?thesis
    unfolding Pair
    by (intro exI[of _ g'] exI[of _ it]) (simp add: g'_def it_def c_def NewItem_def)
qed

lemma tick_timers_fields [simp]:
  "items (tick_timers g) = items g" "score (tick_timers g) = score g"
  "playerLife (tick_timers g) = playerLife g" "phase (tick_timers g) = phase g"
  "bugID (tick_timers g) = bugID g"
  by (simp_all add: tick_timers_def Let_def)

lemma tick_timers_coolTime:
  "coolTime (tick_timers g) = (if 0 < coolTime g then coolTime g - 1 else coolTime g)"
  by (simp add: tick_timers_def Let_def)

text \<open>
  Claim C3. A tick makes at most one spawn attempt, at the one slot drawn, and only
  when the cool time is 0 after its decrement. The attempt succeeds only if that slot is
  empty: no occupied slot is ever overwritten and no other slot changes. The cool time
  gets a new, positive value exactly on a successful spawn; if the drawn slot is
  occupied the state is unchanged, the cool time is still 0 at the end of the tick and
  after the next tick's decrement, so the next tick tries again with its own draw.
\<close>

theorem spawn_attempt:
  "0 \<le> score g \<longrightarrow>
     (\<exists>g1. spawn inp (tick_timers g) = Some g1
        \<and> updateGame inp g = Some (update_items inp g1)
        \<and> coolTime (update_items inp g1) = coolTime g1
        \<and> (coolTime (tick_timers g) = 0 \<and> items g (chosen_slot inp) = None \<longrightarrow>
             (\<exists>it. items g1 = (items g)(chosen_slot inp \<mapsto> it)) \<and> 0 < coolTime g1)
        \<and> (\<not> (coolTime (tick_timers g) = 0 \<and> items g (chosen_slot inp) = None) \<longrightarrow>
             g1 = tick_timers g)
        \<and> (\<forall>s. items g s \<noteq> None \<longrightarrow> items g1 s = items g s)
        \<and> (\<forall>s. s \<noteq> chosen_slot inp \<longrightarrow> items g1 s = items g s)
        \<and> (coolTime (tick_timers g) = 0 \<and> items g (chosen_slot inp) \<noteq> None \<longrightarrow>
             coolTime (update_items inp g1) = 0
             \<and> coolTime (tick_timers (update_items inp g1)) = 0))"
proof
  assume sc: "0 \<le> score g"
  define g0 where "g0 = tick_timers g"
  have sc0: "0 \<le> score g0" using sc by (simp add: g0_def)
  have it0: "items g0 = items g" by (simp add: g0_def)
  show "\<exists>g1. spawn inp (tick_timers g) = Some g1
        \<and> updateGame inp g = Some (update_items inp g1)
        \<and> coolTime (update_items inp g1) = coolTime g1
        \<and> (coolTime (tick_timers g) = 0 \<and> items g (chosen_slot inp) = None \<longrightarrow>
             (\<exists>it. items g1 = (items g)(chosen_slot inp \<mapsto> it)) \<and> 0 < coolTime g1)
        \<and> (\<not> (coolTime (tick_timers g) = 0 \<and> items g (chosen_slot inp) = None) \<longrightarrow>
             g1 = tick_timers g)
        \<and> (\<forall>s. items g s \<noteq> None \<longrightarrow> items g1 s = items g s)
        \<and> (\<forall>s. s \<noteq> chosen_slot inp \<longrightarrow> items g1 s = items g s)
        \<and> (coolTime (tick_timers g) = 0 \<and> items g (chosen_slot inp) \<noteq> None \<longrightarrow>
             coolTime (update_items inp g1) = 0
             \<and> coolTime (tick_timers (update_items inp g1)) = 0)"
  proof (cases "coolTime g0 = 0 \<and> items g0 (chosen_slot inp) = None")
    case True
    then obtain g1 it where g1: "spawn inp g0 = Some g1"
        "items g1 = (items g0)(chosen_slot inp \<mapsto> it)"
        "coolTime g1 = spawn_coolTime (score g0)
                        + int (rand_cool inp) mod spawn_coolTime (score g0)"
      using spawn_fire_item[of g0 inp] sc0 by blast
    have c: "5 \<le> spawn_coolTime (score g0)" using spawn_coolTime_range[OF sc0] by simp
    then have "0 \<le> int (rand_cool inp) mod spawn_coolTime (score g0)" by simp
    then have pos: "0 < coolTime g1" using g1(3) c by linarith
    show ?thesis
      unfolding g0_def[symmetric]
      using True g1(1,2) pos it0
      by (intro exI[of _ g1]) (auto simp: updateGame_def g0_def[symmetric] update_items_coolTime)
  next
    case False
    then have "spawn inp g0 = Some g0" by (rule spawn_idle)
    then show ?thesis
      unfolding g0_def[symmetric]
      using False it0
      by (intro exI[of _ g0])
         (auto simp: updateGame_def g0_def[symmetric] update_items_coolTime tick_timers_coolTime)
  qed
qed

lemma game_start_fields [simp]:
  "phase game_start = PhaseGame" "score game_start = 0" "items game_start = (\<lambda>_. None)"
  "coolTime game_start = 0" "bugID game_start = 0" "playerLife game_start = 3"
  "recoveryTime game_start = 0" "damageTime game_start = 0"
  by (simp_all add: game_start_def initGame_def Game_zero_def)

lemma idle_fields [simp]:
  "pressed idle = False" "pointer_over idle = (\<lambda>_. False)" "rand_j idle = 0" "rand_i idle = 0"
  "rand_recovery idle = 0" "rand_label idle = 0" "rand_cool idle = 0"
  by (simp_all add: idle_def)

lemma chosen_slot_idle [simp]: "chosen_slot idle = (0, 0)"
  by (simp add: chosen_slot_def)

theorem spawn_attempt_witness:
  "(\<exists>g1. spawn idle (tick_timers game_start) = Some g1
       \<and> updateGame idle game_start = Some (update_items idle g1)
       \<and> (\<exists>it. items g1 = (items game_start)((0, 0) \<mapsto> it)) \<and> 0 < coolTime g1)
   \<and> spawn idle (tick_timers board_one) = Some (tick_timers board_one)
   \<and> coolTime (tick_timers board_one) = 0"
  using spawn_attempt[of game_start idle] spawn_attempt[of board_one idle]
  by (auto simp: tick_timers_coolTime board_one_def)

text \<open>
  Claim C2, amended. A successful spawn puts into the drawn slot an item at its full
  lifetime. A normal item gets the lifetime \<open>itemLifetime(score)\<close> and the base score
  \<open>baseReward(score)\<close> of the current score (the latter equal to
  \<open>max(10, floor(sqrt(score)))\<close> below \<open>2\<^sup>5\<^sup>2\<close>); a recovery item gets the fixed lifetime
  400 and the base score 0.
\<close>

theorem spawned_item_values:
  "0 \<le> score g \<and> coolTime g = 0 \<and> items g (chosen_slot inp) = None \<longrightarrow>
     (\<exists>g' it. spawn inp g = Some g' \<and> items g' (chosen_slot inp) = Some it
        \<and> recovery it = recovery_drawn inp g
        \<and> lifetime it = initLifetime it
        \<and> (recovery it \<longrightarrow> initLifetime it = 400 \<and> baseScore it = 0)
        \<and> (\<not> recovery it \<longrightarrow>
              initLifetime it = spawn_lifetime (score g)
              \<and> initLifetime it = spec_itemLifetime (score g)
              \<and> baseScore it = spawn_baseScore (score g)
              \<and> (score g < 2 ^ 52 \<longrightarrow> baseScore it = spec_baseReward (score g))))"
proof
  assume h: "0 \<le> score g \<and> coolTime g = 0 \<and> items g (chosen_slot inp) = None"
  then obtain g' it where s: "spawn inp g = Some g'"
      "items g' = (items g)(chosen_slot inp \<mapsto> it)"
      "recovery it = recovery_drawn inp g" "lifetime it = initLifetime it"
      "initLifetime it = (if recovery_drawn inp g then 400 else spawn_lifetime (score g))"
      "baseScore it = (if recovery_drawn inp g then 0 else spawn_baseScore (score g))"
    using spawn_fire_item[of g inp] by blast
  show "\<exists>g' it. spawn inp g = Some g' \<and> items g' (chosen_slot inp) = Some it
        \<and> recovery it = recovery_drawn inp g
        \<and> lifetime it = initLifetime it
        \<and> (recovery it \<longrightarrow> initLifetime it = 400 \<and> baseScore it = 0)
        \<and> (\<not> recovery it \<longrightarrow>
              initLifetime it = spawn_lifetime (score g)
              \<and> initLifetime it = spec_itemLifetime (score g)
              \<and> baseScore it = spawn_baseScore (score g)
              \<and> (score g < 2 ^ 52 \<longrightarrow> baseScore it = spec_baseReward (score g)))"
    using s h by (intro exI[of _ g'] exI[of _ it]) (simp add: spawn_lifetime_spec spawn_baseScore_spec)
qed

lemma low_life_fields [simp]:
  "phase low_life = PhaseGame" "score low_life = 100" "items low_life = (\<lambda>_. None)"
  "coolTime low_life = 0" "bugID low_life = 0" "playerLife low_life = 1"
  "recoveryTime low_life = 0" "damageTime low_life = 0"
  by (simp_all add: low_life_def)

lemma spec_values_100: "spec_itemLifetime 100 = 300" "spec_baseReward 100 = 10"
proof -
  have "log 10 (100::real) = 2" using log10_pow[of 2] by simp
  then show "spec_itemLifetime 100 = 300" by (simp add: spec_itemLifetime_def)
  have "isqrt 100 = 10" by code_simp
  then show "spec_baseReward 100 = 10"
    using sqrt_floor_isqrt[of 100] by (simp add: spec_baseReward_def)
qed

lemma recovery_drawn_low_life: "recovery_drawn idle low_life"
  by (simp add: recovery_drawn_def spawn_recovery_eq)

lemma recovery_drawn_start: "\<not> recovery_drawn idle game_start"
  by (simp add: recovery_drawn_def spawn_recovery_eq)

theorem spawned_item_values_witness:
  "\<exists>g' it. spawn idle game_start = Some g' \<and> items g' (0, 0) = Some it
      \<and> \<not> recovery it \<and> lifetime it = 400 \<and> initLifetime it = 400 \<and> baseScore it = 10"
proof -
  have "spec_baseReward 0 = 10" "spec_itemLifetime 0 = 400"
    by (simp_all add: spec_baseReward_def spec_itemLifetime_def)
  then show ?thesis
    using spawned_item_values[of game_start idle] recovery_drawn_start by auto
qed

text \<open>
  With a score of 100 and one life, the draw 0 gives a recovery item: it has the
  lifetime 400 and the base score 0, where the curve gives 300 and 10.
\<close>

theorem recovery_item_off_curve:
  "spawn idle low_life =
     Some (low_life\<lparr>items := (items low_life)((0, 0) \<mapsto>
                        NewItem (recovery_label 0) 288 276 True 400 0),
                     coolTime := 45\<rparr>)
   \<and> spec_itemLifetime 100 = 300 \<and> spawn_lifetime 100 = 300
   \<and> spec_baseReward 100 = 10 \<and> spawn_baseScore 100 = 10"
proof -
  have "log 10 (100::real) = 2" using log10_pow[of 2] by simp
  then have "\<lfloor>spec_cooldown_raw 100\<rfloor> = 45" by (simp add: spec_cooldown_raw_def)
  then have c: "spawn_coolTime 100 = 45" by (simp add: spawn_coolTime_spec)
  have "spawn idle low_life =
     Some (low_life\<lparr>items := (items low_life)((0, 0) \<mapsto>
                        NewItem (recovery_label 0) 288 276 True 400 0),
                     coolTime := 45\<rparr>)"
    using recovery_drawn_low_life c by (simp add: spawn_fire)
  moreover have "spawn_lifetime 100 = 300" "spawn_baseScore 100 = 10"
    using spec_values_100 by (simp_all add: spawn_lifetime_spec spawn_baseScore_spec)
  ultimately show ?thesis using spec_values_100 by simp
qed

lemma click_on_fields [simp]:
  "pressed (click_on s) = True" "pointer_over (click_on s) = (\<lambda>s'. s' = s)"
  "rand_j (click_on s) = 0" "rand_i (click_on s) = 0"
  by (simp_all add: click_on_def)

lemma chosen_slot_click [simp]: "chosen_slot (click_on s) = (0, 0)"
  by (simp add: chosen_slot_def)

lemma Item_Update_fields [simp]:
  "lifetime (Item_Update inp s it) = (if 0 < lifetime it then lifetime it - 1 else lifetime it)"
  "resolved (Item_Update inp s it) = (resolved it \<or> (pointer_over inp s \<and> pressed inp))"
  "hovered (Item_Update inp s it) = pointer_over inp s"
  "recovery (Item_Update inp s it) = recovery it"
  "initLifetime (Item_Update inp s it) = initLifetime it"
  "baseScore (Item_Update inp s it) = baseScore it"
  by (auto simp: Item_Update_def Let_def)

lemma update_items_unfold:
  "update_items inp g =
     foldl (update_slot inp) g
       [(0,0), (0,1), (0,2), (0,3), (1,0), (1,1), (1,2), (1,3), (2,0), (2,1), (2,2), (2,3)]"
  by (simp add: update_items_def slots_eq)

lemma updateGame_no_spawn:
  assumes "\<not> (coolTime (tick_timers g) = 0 \<and> items g (chosen_slot inp) = None)"
  shows "updateGame inp g = Some (update_items inp (tick_timers g))"
  using assms by (simp add: updateGame_def spawn_idle)

text \<open>
  Claim C1 at its failing input. With 6 lives, a click on a recovery item gives a
  seventh life: the code increments without looking at \<^verbatim>\<open>maxPlayerLife\<close>.
\<close>

theorem seventh_life:
  "playerLife full_life = 6
   \<and> map_option playerLife (updateGame (click_on (0, 0)) full_life) = Some 7"
proof -
  have f: "coolTime (tick_timers full_life) = 29" "playerLife full_life = 6"
    by (simp_all add: tick_timers_coolTime full_life_def)
  have "updateGame (click_on (0, 0)) full_life
          = Some (update_items (click_on (0, 0)) (tick_timers full_life))"
    by (rule updateGame_no_spawn) (simp add: f)
  moreover have "playerLife (update_items (click_on (0, 0)) (tick_timers full_life)) = 7"
    by (simp add: update_items_unfold update_slot_def full_life_def Item_Resolved_def
        Item_Alive_def NewItem_def Let_def tick_timers_def)
  ultimately show ?thesis using f by simp
qed

lemma score_399_of_400:
  "int_of_fl (mul64 (float64_of_int 10)
     (Sqrt (div64 (float64_of_int 399) (float64_of_int 400)))) = 9"
  by code_simp

text \<open>
  Claim C10. The loop of \<^verbatim>\<open>updateGame\<close> visits all twelve slots in every tick and its
  body never reads the phase: run on a state whose phase is already \<^verbatim>\<open>PhaseGameOver\<close>
  it does what it does in play. So after the expiry that ends the game, in the same
  tick, a further expired item still takes a life (the lives can end below 0) and a
  further resolved item still adds its score, a recovery item one life.
\<close>

theorem loop_ignores_phase:
  "update_items inp g =
     foldl (update_slot inp) g
       [(0,0), (0,1), (0,2), (0,3), (1,0), (1,1), (1,2), (1,3), (2,0), (2,1), (2,2), (2,3)]
   \<and> update_slot inp (g\<lparr>phase := PhaseGameOver\<rparr>) s
       = (update_slot inp g s)\<lparr>phase := PhaseGameOver\<rparr>
   \<and> (phase g = PhaseGameOver \<and> items g s = Some it0 \<longrightarrow>
        (resolved (Item_Update inp s it0) \<longrightarrow>
           score (update_slot inp g s) = score g + Item_Score (Item_Update inp s it0)
           \<and> playerLife (update_slot inp g s)
               = (if recovery it0 then playerLife g + 1 else playerLife g)
           \<and> items (update_slot inp g s) s = None)
        \<and> (\<not> resolved (Item_Update inp s it0) \<and> \<not> 0 < lifetime (Item_Update inp s it0) \<longrightarrow>
           playerLife (update_slot inp g s) = playerLife g - 1
           \<and> damageTime (update_slot inp g s) = maxDamageTime
           \<and> items (update_slot inp g s) s = None
           \<and> phase (update_slot inp g s) = PhaseGameOver))"
proof (intro conjI impI)
  show "update_items inp g =
     foldl (update_slot inp) g
       [(0,0), (0,1), (0,2), (0,3), (1,0), (1,1), (1,2), (1,3), (2,0), (2,1), (2,2), (2,3)]"
    by (rule update_items_unfold)
  show "update_slot inp (g\<lparr>phase := PhaseGameOver\<rparr>) s
       = (update_slot inp g s)\<lparr>phase := PhaseGameOver\<rparr>"
    by (rule update_slot_phase_blind)
next
  assume h: "phase g = PhaseGameOver \<and> items g s = Some it0"
    and r: "resolved (Item_Update inp s it0)"
  have e: "update_slot inp g s =
           g\<lparr>score := score g + Item_Score (Item_Update inp s it0),
             playerLife := (if recovery it0 then playerLife g + 1 else playerLife g),
             recoveryTime := (if recovery it0 then maxRecoveryTime else recoveryTime g),
             items := (items g)(s := None)\<rparr>"
    by (rule update_slot_resolved) (use h r in auto)
  show "score (update_slot inp g s) = score g + Item_Score (Item_Update inp s it0)"
    and "playerLife (update_slot inp g s) = (if recovery it0 then playerLife g + 1 else playerLife g)"
    and "items (update_slot inp g s) s = None"
    unfolding e by simp_all
next
  assume h: "phase g = PhaseGameOver \<and> items g s = Some it0"
    and r: "\<not> resolved (Item_Update inp s it0) \<and> \<not> 0 < lifetime (Item_Update inp s it0)"
  have e: "update_slot inp g s =
           g\<lparr>items := (items g)(s := None), damageTime := maxDamageTime,
             playerLife := playerLife g - 1,
             phase := (if playerLife g - 1 \<le> 0 then PhaseGameOver else phase g)\<rparr>"
    by (rule update_slot_expired) (use h r in auto)
  show "playerLife (update_slot inp g s) = playerLife g - 1"
    and "damageTime (update_slot inp g s) = maxDamageTime"
    and "items (update_slot inp g s) s = None"
    and "phase (update_slot inp g s) = PhaseGameOver"
    unfolding e using h by simp_all
qed

theorem loop_ignores_phase_witness:
  "map_option (\<lambda>g. (phase g, playerLife g, score g)) (updateGame (click_on (0, 2)) last_stand)
     = Some (PhaseGameOver, - 1, 9)
   \<and> map_option (\<lambda>g. (phase g, playerLife g)) (updateGame (click_on (0, 2)) last_hope)
     = Some (PhaseGameOver, 1)"
proof -
  have a: "updateGame (click_on (0, 2)) last_stand
          = Some (update_items (click_on (0, 2)) (tick_timers last_stand))"
    by (rule updateGame_no_spawn) (simp add: tick_timers_coolTime last_stand_def)
  have b: "updateGame (click_on (0, 2)) last_hope
          = Some (update_items (click_on (0, 2)) (tick_timers last_hope))"
    by (rule updateGame_no_spawn) (simp add: tick_timers_coolTime last_hope_def last_stand_def)
  have u: "update_items (click_on (0, 2)) g =
     foldl (update_slot (click_on (0, 2))) g
       [(0,0), (0,1), (0,2), (0,3), (1,0), (1,1), (1,2), (1,3), (2,0), (2,1), (2,2), (2,3)]" for g
    using loop_ignores_phase[of "click_on (0, 2)" g] by simp
  have 1: "(\<lambda>g. (phase g, playerLife g, score g))
             (update_items (click_on (0, 2)) (tick_timers last_stand)) = (PhaseGameOver, - 1, 9)"
    by (simp add: u update_slot_def last_stand_def Item_Resolved_def Item_Alive_def
        NewItem_def Let_def tick_timers_def Item_Score_def score_399_of_400)
  have 2: "(\<lambda>g. (phase g, playerLife g))
             (update_items (click_on (0, 2)) (tick_timers last_hope)) = (PhaseGameOver, 1)"
    by (simp add: u update_slot_def last_hope_def last_stand_def Item_Resolved_def Item_Alive_def
        NewItem_def Let_def tick_timers_def)
  show ?thesis using 1 2 by (simp add: a b)
qed

lemma spawn_coolTime_negative:
  assumes "sc < 0"
  shows "spawn_coolTime sc = minInt64"
  using assms by (simp add: spawn_coolTime_def xfloat_of_int_def log10_Fin min_fl_def max_fl_def)

lemma spawn_panics_on_negative_score:
  assumes "coolTime g = 0" and "items g (chosen_slot inp) = None" and "score g < 0"
  shows "spawn inp g = None"
proof -
  have c: "spawn_coolTime (score g) \<le> 0"
    using spawn_coolTime_negative[OF assms(3)] by (simp add: minInt64_def)
  have r: "\<exists>b. spawn_recovery inp g = Some b" by (simp add: spawn_recovery_eq)
  then obtain b where b: "spawn_recovery inp g = Some b" by blast
  show ?thesis
    using assms(1,2) c b
    by (cases b) (simp_all add: spawn_def chosen_slot_def Intn_pos Let_def Intn_def)
qed

lemma spawn_new_item:
  assumes s: "spawn inp g = Some g'" and e: "items g s = None" and n: "items g' s = Some it"
  shows "s = chosen_slot inp \<and> coolTime g = 0 \<and> 0 \<le> score g
         \<and> recovery it = recovery_drawn inp g"
proof -
  have att: "coolTime g = 0 \<and> items g (chosen_slot inp) = None"
  proof (rule ccontr)
    assume "\<not> (coolTime g = 0 \<and> items g (chosen_slot inp) = None)"
    then have "spawn inp g = Some g" by (rule spawn_idle)
    then show False using s e n by simp
  qed
  have sc: "0 \<le> score g"
  proof (rule ccontr)
    assume "\<not> 0 \<le> score g"
    then have "spawn inp g = None"
      using att by (intro spawn_panics_on_negative_score) simp_all
    then show False using s by simp
  qed
  obtain g2 it2 where f: "spawn inp g = Some g2"
      "items g2 = (items g)(chosen_slot inp \<mapsto> it2)"
      "recovery it2 = recovery_drawn inp g"
    using spawn_fire_item[of g inp] att sc by auto
  have g2: "g2 = g'" using f(1) s by simp
  have sl: "s = chosen_slot inp"
  proof (rule ccontr)
    assume "s \<noteq> chosen_slot inp"
    then have "items g' s = items g s" using f(2) g2 by simp
    then show False using e n by simp
  qed
  then have "it = it2" using f(2) g2 n by simp
  then show ?thesis using sl att sc f(3) by simp
qed


text \<open>
  Claim C8. A spawn creates a recovery item exactly when the recovery decision of the
  tick comes out true, and that needs a score of at least 100 and fewer than 6 lives.
  The decision is one call of \<^verbatim>\<open>rand.Intn\<close>: \<open>Intn(3) = 0\<close> if the player has fewer
  than 2 lives, \<open>Intn(5) = 0\<close> with 2 or 3 lives, \<open>Intn(10) = 0\<close> with 4 or 5 lives; so
  exactly one of the 3, 5 or 10 equally likely results gives a recovery item. With 6
  lives or more, or with a score below 100 (the score 0 in particular), no random
  output gives one: every item a spawn then creates is a normal item.
\<close>

theorem recovery_chance:
  "spawn_recovery inp g =
     Some (100 \<le> score g \<and>
           (if playerLife g < 2 then int (rand_recovery inp) mod 3 = 0
            else if playerLife g < 4 then int (rand_recovery inp) mod 5 = 0
            else if playerLife g < maxPlayerLife then int (rand_recovery inp) mod 10 = 0
            else False))
   \<and> (100 \<le> score g \<and> playerLife g < 2 \<longrightarrow>
        card {r. r < 3 \<and> spawn_recovery (inp\<lparr>rand_recovery := r\<rparr>) g = Some True} = 1)
   \<and> (100 \<le> score g \<and> 2 \<le> playerLife g \<and> playerLife g < 4 \<longrightarrow>
        card {r. r < 5 \<and> spawn_recovery (inp\<lparr>rand_recovery := r\<rparr>) g = Some True} = 1)
   \<and> (100 \<le> score g \<and> 4 \<le> playerLife g \<and> playerLife g < maxPlayerLife \<longrightarrow>
        card {r. r < 10 \<and> spawn_recovery (inp\<lparr>rand_recovery := r\<rparr>) g = Some True} = 1)
   \<and> (maxPlayerLife \<le> playerLife g \<or> score g < 100 \<longrightarrow>
        (\<forall>r. spawn_recovery (inp\<lparr>rand_recovery := r\<rparr>) g = Some False))
   \<and> (0 \<le> score g \<and> coolTime g = 0 \<and> items g (chosen_slot inp) = None \<longrightarrow>
        (\<exists>g' it. spawn inp g = Some g' \<and> items g' (chosen_slot inp) = Some it
           \<and> recovery it = (spawn_recovery inp g = Some True)))
   \<and> (\<forall>g' s it. spawn inp g = Some g' \<and> items g s = None \<and> items g' s = Some it \<longrightarrow>
        recovery it = (spawn_recovery inp g = Some True)
        \<and> (recovery it \<longrightarrow> 100 \<le> score g \<and> playerLife g < maxPlayerLife)
        \<and> (score g = 0 \<longrightarrow> \<not> recovery it))"
proof -
  have dec: "spawn_recovery inp g =
     Some (100 \<le> score g \<and>
           (if playerLife g < 2 then int (rand_recovery inp) mod 3 = 0
            else if playerLife g < 4 then int (rand_recovery inp) mod 5 = 0
            else if playerLife g < maxPlayerLife then int (rand_recovery inp) mod 10 = 0
            else False))"
    by (rule spawn_recovery_eq)
  have odds: "(100 \<le> score g \<and> playerLife g < 2 \<longrightarrow>
        card {r. r < 3 \<and> spawn_recovery (inp\<lparr>rand_recovery := r\<rparr>) g = Some True} = 1)
   \<and> (100 \<le> score g \<and> 2 \<le> playerLife g \<and> playerLife g < 4 \<longrightarrow>
        card {r. r < 5 \<and> spawn_recovery (inp\<lparr>rand_recovery := r\<rparr>) g = Some True} = 1)
   \<and> (100 \<le> score g \<and> 4 \<le> playerLife g \<and> playerLife g < maxPlayerLife \<longrightarrow>
        card {r. r < 10 \<and> spawn_recovery (inp\<lparr>rand_recovery := r\<rparr>) g = Some True} = 1)
   \<and> (maxPlayerLife \<le> playerLife g \<or> score g < 100 \<longrightarrow>
        (\<forall>r. spawn_recovery (inp\<lparr>rand_recovery := r\<rparr>) g = Some False))"
    using one_success[of 3] one_success[of 5] one_success[of 10]
    by (simp add: spawn_recovery_eq)
  have made: "\<exists>g' it. spawn inp g = Some g' \<and> items g' (chosen_slot inp) = Some it
           \<and> recovery it = (spawn_recovery inp g = Some True)"
    if "0 \<le> score g \<and> coolTime g = 0 \<and> items g (chosen_slot inp) = None"
  proof -
    have h: "coolTime g = 0" "items g (chosen_slot inp) = None" "0 \<le> score g"
      using that by simp_all
    obtain g' it where "spawn inp g = Some g'"
        "items g' = (items g)(chosen_slot inp \<mapsto> it)" "recovery it = recovery_drawn inp g"
      using spawn_fire_item[OF h] by auto
    then show ?thesis
      by (intro exI[of _ g'] exI[of _ it]) (simp add: recovery_drawn_def)
  qed
  have only: "recovery it = (spawn_recovery inp g = Some True)
        \<and> (recovery it \<longrightarrow> 100 \<le> score g \<and> playerLife g < maxPlayerLife)
        \<and> (score g = 0 \<longrightarrow> \<not> recovery it)"
    if "spawn inp g = Some g' \<and> items g s = None \<and> items g' s = Some it" for g' s it
  proof -
    have "recovery it = recovery_drawn inp g"
      using spawn_new_item[of inp g g' s it] that by simp
    then have r: "recovery it = (spawn_recovery inp g = Some True)"
      by (simp add: recovery_drawn_def)
    show ?thesis unfolding r by (auto simp: spawn_recovery_eq split: if_splits)
  qed
  show ?thesis using dec odds made only by blast
qed

theorem recovery_chance_witness:
  "spawn_recovery idle (game_start\<lparr>score := 100, playerLife := 1\<rparr>) = Some True
   \<and> card {r. r < 3 \<and> spawn_recovery (idle\<lparr>rand_recovery := r\<rparr>)
                          (game_start\<lparr>score := 100, playerLife := 1\<rparr>) = Some True} = 1
   \<and> card {r. r < 5 \<and> spawn_recovery (idle\<lparr>rand_recovery := r\<rparr>)
                          (game_start\<lparr>score := 100\<rparr>) = Some True} = 1
   \<and> card {r. r < 10 \<and> spawn_recovery (idle\<lparr>rand_recovery := r\<rparr>)
                           (game_start\<lparr>score := 100, playerLife := 5\<rparr>) = Some True} = 1
   \<and> spawn_recovery (idle\<lparr>rand_recovery := 0\<rparr>) (game_start\<lparr>playerLife := 1\<rparr>) = Some False
   \<and> (\<exists>g' it. spawn idle low_life = Some g' \<and> items g' (0, 0) = Some it \<and> recovery it)
   \<and> (\<exists>g' it. spawn idle (game_start\<lparr>playerLife := 1\<rparr>) = Some g'
          \<and> items g' (0, 0) = Some it \<and> \<not> recovery it)"
proof -
  have a: "spawn_recovery idle (game_start\<lparr>score := 100, playerLife := 1\<rparr>) = Some True
   \<and> card {r. r < 3 \<and> spawn_recovery (idle\<lparr>rand_recovery := r\<rparr>)
                          (game_start\<lparr>score := 100, playerLife := 1\<rparr>) = Some True} = 1
   \<and> card {r. r < 5 \<and> spawn_recovery (idle\<lparr>rand_recovery := r\<rparr>)
                          (game_start\<lparr>score := 100\<rparr>) = Some True} = 1
   \<and> card {r. r < 10 \<and> spawn_recovery (idle\<lparr>rand_recovery := r\<rparr>)
                           (game_start\<lparr>score := 100, playerLife := 5\<rparr>) = Some True} = 1
   \<and> spawn_recovery (idle\<lparr>rand_recovery := 0\<rparr>) (game_start\<lparr>playerLife := 1\<rparr>) = Some False"
    using recovery_chance[of idle "game_start\<lparr>score := 100, playerLife := 1\<rparr>"]
          recovery_chance[of idle "game_start\<lparr>score := 100\<rparr>"]
          recovery_chance[of idle "game_start\<lparr>score := 100, playerLife := 5\<rparr>"]
          recovery_chance[of idle "game_start\<lparr>playerLife := 1\<rparr>"]
    by simp
  have b: "\<exists>g' it. spawn idle low_life = Some g' \<and> items g' (0, 0) = Some it \<and> recovery it"
    using recovery_chance[of idle low_life] by auto
  have c: "\<exists>g' it. spawn idle (game_start\<lparr>playerLife := 1\<rparr>) = Some g'
          \<and> items g' (0, 0) = Some it \<and> \<not> recovery it"
    using recovery_chance[of idle "game_start\<lparr>playerLife := 1\<rparr>"] by auto
  show ?thesis using a b c by blast
qed

end
